theory Spec2Isabelle
  imports
    Complex_Main
    "HOL-Library.Char_ord"
    "HOL-Library.List_Lexorder"
    "HOL-Library.Product_Lexorder"
    "HOL-Library.AList"
begin

section \<open>Python values used by both scripts\<close>

text \<open>
  Strings are byte strings (\<^typ>\<open>string\<close>); they are ordered lexicographically by
  character code, as Python orders \<open>str\<close>. Exceptions are values of \<open>py_error\<close>.
\<close>

datatype py_error =
    ValueError | ZeroDivisionError | TypeError
  | HTTPError | URLError | TimeoutError | JSONDecodeError
  | OtherError

text \<open>
  \<open>str.isspace\<close> on the ASCII range: TAB..CR, FS..US and the blank. Python also counts
  the blanks beyond ASCII (U+0085, U+00A0 and others), which are several bytes here and
  are not stripped; the inputs evaluated below are ASCII.
\<close>

definition is_space :: "char \<Rightarrow> bool" where
  "is_space c = (let n = (of_char c :: nat) in (9 \<le> n \<and> n \<le> 13) \<or> (28 \<le> n \<and> n \<le> 32))"

text \<open>\<open>s.strip()\<close>\<close>

definition strip :: "string \<Rightarrow> string" where
  "strip s = rev (dropWhile is_space (rev (dropWhile is_space s)))"

text \<open>\<open>c.lower()\<close> and \<open>s.lower()\<close> on the ASCII range.\<close>

definition lower_char :: "char \<Rightarrow> char" where
  "lower_char c =
     (let n = (of_char c :: nat) in if 65 \<le> n \<and> n \<le> 90 then char_of (n + 32) else c)"

definition lower :: "string \<Rightarrow> string" where
  "lower s = map lower_char s"

text \<open>\<open>sub in s\<close> for strings.\<close>

fun starts_with :: "string \<Rightarrow> string \<Rightarrow> bool" where
  "starts_with [] s = True"
| "starts_with (a # sub) [] = False"
| "starts_with (a # sub) (b # s) = (a = b \<and> starts_with sub s)"

fun contains :: "string \<Rightarrow> string \<Rightarrow> bool" where
  "contains sub [] = (sub = [])"
| "contains sub (c # s) = (starts_with sub (c # s) \<or> contains sub s)"

text \<open>\<open>str(n)\<close> for an integer, as an f-string renders it.\<close>

definition digit_char :: "nat \<Rightarrow> char" where
  "digit_char n = ''0123456789'' ! n"

function str_nat :: "nat \<Rightarrow> string" where
  "str_nat n = (if n < 10 then [digit_char n] else str_nat (n div 10) @ [digit_char (n mod 10)])"
  by pat_completeness auto
termination
  by (relation "measure id") auto

definition str_int :: "int \<Rightarrow> string" where
  "str_int i = (if i < 0 then CHR ''-'' # str_nat (nat (- i)) else str_nat (nat i))"

text \<open>
  \<open>s.isdigit()\<close> and \<open>int(s)\<close> on ASCII decimal digits. Python's \<open>isdigit\<close> also holds
  of digit characters beyond ASCII, on some of which (U+00B2 and the like) \<open>int\<close> raises
  \<open>ValueError\<close>; such course ids are outside this model.
\<close>

definition is_digit_char :: "char \<Rightarrow> bool" where
  "is_digit_char c = (let n = (of_char c :: nat) in 48 \<le> n \<and> n \<le> 57)"

definition isdigit :: "string \<Rightarrow> bool" where
  "isdigit s = (s \<noteq> [] \<and> list_all is_digit_char s)"

definition py_int :: "string \<Rightarrow> int" where
  "py_int s = foldl (\<lambda>a c. 10 * a + (int (of_char c) - 48)) 0 s"

text \<open>
  A row of \<open>csv.DictReader\<close>: every header name is a key, in header order; the value is
  \<open>None\<close> where the line was shorter than the header.
\<close>

type_synonym csv_row = "(string \<times> string option) list"

text \<open>\<open>(row.get(k) or '').strip()\<close>\<close>

definition csv_get :: "csv_row \<Rightarrow> string \<Rightarrow> string" where
  "csv_get row k = strip (case map_of row k of Some (Some v) \<Rightarrow> v | _ \<Rightarrow> [])"

text \<open>
  \<open>csv.DictWriter(f, fieldnames).writerow(rowdict)\<close> with the default
  \<open>extrasaction='raise'\<close> and \<open>restval=''\<close>: a key outside \<open>fieldnames\<close> raises
  \<open>ValueError\<close>; otherwise the line holds one value per field name.
\<close>

definition writerow :: "string list \<Rightarrow> (string \<times> string) list \<Rightarrow> py_error + string list" where
  "writerow fieldnames rowdict =
     (if list_ex (\<lambda>k. k \<notin> set fieldnames) (map fst rowdict) then Inl ValueError
      else Inr (map (\<lambda>k. case map_of rowdict k of Some v \<Rightarrow> v | None \<Rightarrow> []) fieldnames))"

text \<open>Writing rows one after another stops at the first exception; the lines written stay.\<close>

fun writerows ::
  "string list \<Rightarrow> (string \<times> string) list list \<Rightarrow> string list list \<Rightarrow> string list list \<times> py_error option"
where
  "writerows fieldnames [] written = (written, None)"
| "writerows fieldnames (r # rs) written =
     (case writerow fieldnames r of
        Inl e \<Rightarrow> (written, Some e)
      | Inr line \<Rightarrow> writerows fieldnames rs (written @ [line]))"


section \<open>combine\_courses\_slots.py\<close>

subsection \<open>determine\_segment\<close>

record datetime =
  year :: nat
  month :: nat
  day :: nat
  hour :: nat
  minute :: nat
  second :: nat
  microsecond :: nat

text \<open>Naive datetimes compare field by field, most significant first.\<close>

definition dt_key :: "datetime \<Rightarrow> nat list" where
  "dt_key d = [year d, month d, day d, hour d, minute d, second d, microsecond d]"

definition dt_le :: "datetime \<Rightarrow> datetime \<Rightarrow> bool" where
  "dt_le a b = (dt_key a \<le> dt_key b)"

text \<open>\<open>datetime(y, m, d)\<close>\<close>

definition mk_date :: "nat \<Rightarrow> nat \<Rightarrow> nat \<Rightarrow> datetime" where
  "mk_date y m d =
     \<lparr>year = y, month = m, day = d, hour = 0, minute = 0, second = 0, microsecond = 0\<rparr>"

definition jan_05 :: datetime where "jan_05 = mk_date 2026 1 5"
definition feb_09 :: datetime where "feb_09 = mk_date 2026 2 9"
definition feb_10 :: datetime where "feb_10 = mk_date 2026 2 10"
definition feb_26 :: datetime where "feb_26 = mk_date 2026 2 26"
definition mar_09 :: datetime where "mar_09 = mk_date 2026 3 9"
definition mar_20 :: datetime where "mar_20 = mk_date 2026 3 20"
definition mar_23 :: datetime where "mar_23 = mk_date 2026 3 23"
definition apr_27 :: datetime where "apr_27 = mk_date 2026 4 27"

text \<open>The two \<open>if\<close>/\<open>elif\<close> chains of \<open>determine_segment\<close>.\<close>

definition start_seg :: "datetime \<Rightarrow> int" where
  "start_seg start_dt =
     (if dt_le start_dt jan_05 then 1
      else if dt_le start_dt feb_10 then 2
      else if dt_le start_dt feb_26 then 3
      else if dt_le start_dt mar_23 then 4
      else 5)"

definition end_seg :: "datetime \<Rightarrow> int" where
  "end_seg end_dt =
     (if dt_le end_dt feb_09 then 2
      else if dt_le end_dt mar_09 then 3
      else if dt_le end_dt mar_20 then 4
      else if dt_le end_dt apr_27 then 6
      else 6)"

text \<open>
  \<open>None\<close> is the only falsy argument: a \<open>datetime\<close> object is always truthy. The last
  test is the source's \<open>if start_seg and end_seg\<close> on two integers.
\<close>

definition determine_segment :: "datetime option \<Rightarrow> datetime option \<Rightarrow> string" where
  "determine_segment start_dt end_dt =
     (case start_dt of
        None \<Rightarrow> []
      | Some s \<Rightarrow>
          (case end_dt of
             None \<Rightarrow> []
           | Some e \<Rightarrow>
               (if start_seg s \<noteq> 0 \<and> end_seg e \<noteq> 0
                then str_int (start_seg s) @ ''-'' @ str_int (end_seg e)
                else [])))"

text \<open>
  \<open>parse_date\<close>: \<open>datetime.strptime\<close> is the library's; it is a parameter here, with
  \<open>None\<close> for every exception it raises (the bare \<open>except\<close> returns \<open>None\<close>).
\<close>

definition parse_date :: "(string \<Rightarrow> datetime option) \<Rightarrow> string \<Rightarrow> datetime option" where
  "parse_date strptime date_str = strptime (strip date_str)"

subsection \<open>Reading the course metadata\<close>

text \<open>The dictionary stored per course, one field per key.\<close>

record course =
  c_rcid :: string
  c_ccode :: string
  c_cname :: string
  c_coordname :: string
  c_ccrd :: string
  c_segment :: string
  c_slots :: string

text \<open>The dictionary built from one row of a metadata file.\<close>

definition course_of_row :: "(string \<Rightarrow> datetime option) \<Rightarrow> csv_row \<Rightarrow> course" where
  "course_of_row strptime row =
     (let strtdt = csv_get row ''strtdt'';
          enddt = csv_get row ''enddt'';
          start_dt = parse_date strptime strtdt;
          end_dt = parse_date strptime enddt;
          segment = determine_segment start_dt end_dt
      in \<lparr>c_rcid = csv_get row ''rcid'', c_ccode = csv_get row ''ccode'',
          c_cname = csv_get row ''cname'', c_coordname = csv_get row ''coordname'',
          c_ccrd = csv_get row ''ccrd'', c_segment = segment, c_slots = []\<rparr>)"

text \<open>
  One row of one metadata file: rows without an rcid are skipped and the first occurrence
  of an rcid is kept. The dictionary keeps insertion order.
\<close>

definition add_course ::
  "(string \<Rightarrow> datetime option) \<Rightarrow> (string \<times> course) list \<Rightarrow> csv_row \<Rightarrow> (string \<times> course) list"
where
  "add_course strptime courses row =
     (let rcid = csv_get row ''rcid'' in
      if rcid = [] then courses
      else if map_of courses rcid \<noteq> None then courses
      else courses @ [(rcid, course_of_row strptime row)])"

text \<open>
  The files \<open>courses.csv\<close>, \<open>courses2.csv\<close>, \<open>courses3.csv\<close> in this order; \<open>None\<close>
  is a file that does not exist.
\<close>

definition read_all_courses ::
  "(string \<Rightarrow> datetime option) \<Rightarrow> csv_row list option list \<Rightarrow> (string \<times> course) list"
where
  "read_all_courses strptime files =
     foldl (add_course strptime) [] (concat (map (\<lambda>f. case f of None \<Rightarrow> [] | Some rows \<Rightarrow> rows) files))"

subsection \<open>Reading slots.json and slots.csv\<close>

text \<open>The objects of \<open>slots.json\<close>, as \<open>get_slots.py\<close> writes them.\<close>

record slot_entry =
  courseSlotId :: string
  courseSlotCd :: string
  segName :: string
  slotPeriodCdDays :: "string list"

record json_course =
  j_rcid :: string
  j_ccode :: string
  j_cname :: string
  j_slots :: "slot_entry list"

type_synonym slots_json = "(string \<times> json_course) list"

text \<open>
  The two dictionaries \<open>slots_map\<close> and \<open>segment_map\<close> are kept as a pair of
  insertion-ordered association lists; an assignment \<open>d[k] = v\<close> is \<open>AList.update\<close>.
\<close>

type_synonym slot_maps = "(string \<times> string) list \<times> (string \<times> string) list"

definition read_slot :: "string \<Rightarrow> slot_maps \<Rightarrow> slot_entry \<Rightarrow> slot_maps" where
  "read_slot rcid maps slot =
     (let slot_cd = strip (courseSlotCd slot);
          seg_name = strip (segName slot);
          slots_map = (if slot_cd \<noteq> [] then AList.update rcid slot_cd (fst maps) else fst maps);
          segment_map = (if seg_name \<noteq> [] then AList.update rcid seg_name (snd maps) else snd maps)
      in (slots_map, segment_map))"

definition read_slots_json :: "slots_json \<Rightarrow> slot_maps \<Rightarrow> slot_maps" where
  "read_slots_json data maps =
     foldl (\<lambda>m (rcid, c). foldl (read_slot rcid) m (j_slots c)) maps data"

text \<open>
  The fallback over the rows of \<open>slots.csv\<close>; the column names are searched per row.
  A line longer than the header gets its extra cells under the key \<open>None\<close>, on which
  the searches of the source raise; \<open>csv_row\<close> has string keys only, so such ragged
  lines are outside this model.
\<close>

definition find_key :: "(string \<Rightarrow> bool) \<Rightarrow> csv_row \<Rightarrow> string \<Rightarrow> string" where
  "find_key p row dflt = (case find p (map fst row) of Some k \<Rightarrow> k | None \<Rightarrow> dflt)"

definition read_csv_row :: "slot_maps \<Rightarrow> csv_row \<Rightarrow> slot_maps" where
  "read_csv_row maps row =
     (let rcid_key = find_key (\<lambda>k. contains ''rcid'' (lower k)) row ''rcid'';
          slot_key = find_key (\<lambda>k. contains ''courseSlotCd'' k) row ''courseSlotCd'';
          seg_key = find_key (\<lambda>k. contains ''segName'' k) row ''segName'';
          rcid = csv_get row rcid_key;
          slot = csv_get row slot_key;
          segment = csv_get row seg_key
      in if rcid \<noteq> [] then
           (if slot \<noteq> [] then AList.update rcid slot (fst maps) else fst maps,
            if segment \<noteq> [] then AList.update rcid segment (snd maps) else snd maps)
         else maps)"

text \<open>Both reads in the order of the script; \<open>None\<close> is a file that does not exist.\<close>

definition read_slots :: "slots_json option \<Rightarrow> csv_row list option \<Rightarrow> slot_maps" where
  "read_slots json csv =
     (let maps = (case json of None \<Rightarrow> ([], []) | Some data \<Rightarrow> read_slots_json data ([], []))
      in if fst maps = [] then
           (case csv of None \<Rightarrow> maps | Some rows \<Rightarrow> foldl read_csv_row maps rows)
         else maps)"

subsection \<open>Merging and writing\<close>

definition merge_course :: "slot_maps \<Rightarrow> string \<times> course \<Rightarrow> string \<times> course" where
  "merge_course maps entry =
     (let rcid = fst entry;
          course = snd entry;
          course1 = (case map_of (fst maps) rcid of
                       Some s \<Rightarrow> course\<lparr>c_slots := s\<rparr> | None \<Rightarrow> course);
          course2 = (case map_of (snd maps) rcid of
                       Some s \<Rightarrow> course1\<lparr>c_segment := s\<rparr> | None \<Rightarrow> course1)
      in (rcid, course2))"

definition merge_courses :: "slot_maps \<Rightarrow> (string \<times> course) list \<Rightarrow> (string \<times> course) list" where
  "merge_courses maps courses = map (merge_course maps) courses"

definition sorted_courses :: "(string \<times> course) list \<Rightarrow> course list" where
  "sorted_courses courses = sort_key c_ccode (map snd courses)"

definition out_fieldnames :: "string list" where
  "out_fieldnames = [''ccode'', ''cname'', ''coordname'', ''ccrd'', ''segment'', ''slots'']"

definition out_rowdict :: "course \<Rightarrow> (string \<times> string) list" where
  "out_rowdict c =
     [(''ccode'', c_ccode c), (''cname'', c_cname c), (''coordname'', c_coordname c),
      (''ccrd'', c_ccrd c), (''segment'', c_segment c), (''slots'', c_slots c)]"

text \<open>The merged records in output order.\<close>

definition merged_records ::
  "(string \<Rightarrow> datetime option) \<Rightarrow> csv_row list option list \<Rightarrow> slots_json option
     \<Rightarrow> csv_row list option \<Rightarrow> course list"
where
  "merged_records strptime files json csv =
     sorted_courses (merge_courses (read_slots json csv) (read_all_courses strptime files))"

text \<open>
  The whole script: the lines of \<open>courses_with_slots.csv\<close> (header first) and the
  exception that ended the run, if any.
\<close>

definition combine ::
  "(string \<Rightarrow> datetime option) \<Rightarrow> csv_row list option list \<Rightarrow> slots_json option
     \<Rightarrow> csv_row list option \<Rightarrow> string list list \<times> py_error option"
where
  "combine strptime files json csv =
     writerows out_fieldnames (map out_rowdict (merged_records strptime files json csv))
       [out_fieldnames]"


section \<open>get\_slots.py\<close>

subsection \<open>Course metadata\<close>

record CourseMeta =
  rcid :: string
  ccode :: string
  cname :: string

definition read_course_row :: "(string \<times> CourseMeta) list \<Rightarrow> csv_row \<Rightarrow> (string \<times> CourseMeta) list" where
  "read_course_row courses row =
     (let r = csv_get row ''rcid'' in
      if r = [] then courses
      else if map_of courses r \<noteq> None then courses
      else courses @ [(r, \<lparr>rcid = r, ccode = csv_get row ''ccode'', cname = csv_get row ''cname''\<rparr>)])"

definition read_courses :: "csv_row list option list \<Rightarrow> (string \<times> CourseMeta) list" where
  "read_courses csv_paths =
     foldl read_course_row []
       (concat (map (\<lambda>f. case f of None \<Rightarrow> [] | Some rows \<Rightarrow> rows) csv_paths))"

text \<open>\<open>courses.get(rcid, CourseMeta(rcid=rcid, ccode="", cname=""))\<close>\<close>

definition course_or_blank :: "(string \<times> CourseMeta) list \<Rightarrow> string \<Rightarrow> CourseMeta" where
  "course_or_blank courses r =
     (case map_of courses r of Some c \<Rightarrow> c | None \<Rightarrow> \<lparr>rcid = r, ccode = [], cname = []\<rparr>)"

text \<open>
  \<open>sorted(courses.keys(), key=lambda x: int(x) if x.isdigit() else x)\<close>: comparing an
  \<open>int\<close> key with a \<open>str\<close> key raises \<open>TypeError\<close>, which happens as soon as both kinds
  of keys are present.
\<close>

definition sorted_rcids :: "string list \<Rightarrow> py_error + string list" where
  "sorted_rcids xs =
     (if list_ex isdigit xs \<and> list_ex (\<lambda>x. \<not> isdigit x) xs then Inl TypeError
      else if list_all isdigit xs then Inr (sort_key py_int xs)
      else Inr (sort_key (\<lambda>x. x) xs))"

subsection \<open>chunked\<close>

text \<open>The loop \<open>for i in range(0, len(values), n): yield values[i : i + n]\<close>, from index \<open>i\<close> on.\<close>

function chunks_from :: "'a list \<Rightarrow> nat \<Rightarrow> nat \<Rightarrow> 'a list list" where
  "chunks_from vs n i =
     (if 0 < n \<and> i < length vs then take n (drop i vs) # chunks_from vs n (i + n) else [])"
  by pat_completeness auto
termination
  by (relation "measure (\<lambda>(vs, n, i). length vs - i)") auto

declare chunks_from.simps [simp del]

definition chunked :: "'a list \<Rightarrow> int \<Rightarrow> py_error + 'a list list" where
  "chunked vs n = (if n \<le> 0 then Inl ValueError else Inr (chunks_from vs (nat n) 0))"

subsection \<open>Aggregating the rows of a response\<close>

text \<open>The scalar JSON values a row object holds.\<close>

datatype jval = JNull | JBool bool | JInt int | JStr string

type_synonym item = "(string \<times> jval) list"

definition truthy :: "jval \<Rightarrow> bool" where
  "truthy v = (case v of JNull \<Rightarrow> False | JBool b \<Rightarrow> b | JInt i \<Rightarrow> i \<noteq> 0 | JStr s \<Rightarrow> s \<noteq> [])"

definition py_str :: "jval \<Rightarrow> string" where
  "py_str v =
     (case v of JNull \<Rightarrow> ''None'' | JBool b \<Rightarrow> (if b then ''True'' else ''False'')
      | JInt i \<Rightarrow> str_int i | JStr s \<Rightarrow> s)"

text \<open>\<open>str(it.get(k, "") or "").strip()\<close>\<close>

definition field :: "item \<Rightarrow> string \<Rightarrow> string" where
  "field it k =
     (let v = (case map_of it k of Some v \<Rightarrow> v | None \<Rightarrow> JStr []) in
      strip (py_str (if truthy v then v else JStr [])))"

type_synonym slot_key = "string \<times> string \<times> string"

record agg =
  slot_map :: "(slot_key \<times> string set) list"
  segment_map :: "(slot_key \<times> string) list"

text \<open>The key of a row, and whether the loop body skips it (\<open>continue\<close>).\<close>

definition item_key :: "item \<Rightarrow> slot_key" where
  "item_key it = (field it ''runningCourseId'', field it ''courseSlotId'', field it ''courseSlotCd'')"

definition skipped :: "item \<Rightarrow> bool" where
  "skipped it = (field it ''runningCourseId'' = [] \<or> field it ''slotPeriodCdDays'' = [])"

text \<open>The body of \<open>for it in items\<close>; \<open>slot_map\<close> is a \<open>defaultdict(set)\<close>.\<close>

definition add_item :: "'a agg_scheme \<Rightarrow> item \<Rightarrow> 'a agg_scheme" where
  "add_item st it =
     (let day_time = field it ''slotPeriodCdDays'';
          seg_name = field it ''segName''
      in if skipped it then st
         else
           (let key = item_key it;
                days = (case map_of (slot_map st) key of Some d \<Rightarrow> d | None \<Rightarrow> {});
                st1 = st\<lparr>slot_map := AList.update key (insert day_time days) (slot_map st)\<rparr>
            in if seg_name \<noteq> [] \<and> map_of (segment_map st1) key = None
               then st1\<lparr>segment_map := AList.update key seg_name (segment_map st1)\<rparr>
               else st1))"

definition add_items :: "'a agg_scheme \<Rightarrow> item list \<Rightarrow> 'a agg_scheme" where
  "add_items st items = foldl add_item st items"

subsection \<open>Fetching the batches\<close>

text \<open>
  What the run does to the outside: a request, a warning, a sleep (in milliseconds), the
  progress line of a fetched batch, the error line of an abandoned batch.
\<close>

datatype event =
    Call "string list"
  | Warn nat int nat
  | Sleep nat
  | Fetched nat int nat nat
  | Failed nat int

record fetch_state = agg +
  trace :: "event list"

definition is_call :: "event \<Rightarrow> bool" where
  "is_call e = (case e of Call b \<Rightarrow> True | _ \<Rightarrow> False)"

definition calls :: "event list \<Rightarrow> nat" where
  "calls tr = length (filter is_call tr)"

definition emit :: "event \<Rightarrow> fetch_state \<Rightarrow> fetch_state" where
  "emit e st = st\<lparr>trace := trace st @ [e]\<rparr>"

text \<open>The exceptions the \<open>except\<close> clause of the retry loop names.\<close>

definition caught :: "py_error \<Rightarrow> bool" where
  "caught ex = (ex = HTTPError \<or> ex = URLError \<or> ex = TimeoutError \<or> ex = ValueError
                \<or> ex = JSONDecodeError)"

text \<open>
  \<open>post_timetable\<close> reaches the remote endpoint; its result is a parameter: the answer
  to the \<open>k\<close>-th request of the run (counted from 0) for a batch is a list of row objects
  or an exception.
\<close>

type_synonym remote = "nat \<Rightarrow> string list \<Rightarrow> py_error + item list"

text \<open>
  The \<open>while True\<close> loop of one batch; \<open>attempt\<close> is the counter before its increment.
  An exception the \<open>except\<close> clause does not name leaves the loop, with the events so far.
\<close>

function attempt_loop ::
  "remote \<Rightarrow> int \<Rightarrow> nat \<Rightarrow> int \<Rightarrow> string list \<Rightarrow> nat \<Rightarrow> fetch_state
     \<Rightarrow> (py_error \<times> event list) + fetch_state"
where
  "attempt_loop post retries batch_index total_batches batch attempt st =
     (case post (calls (trace st)) batch of
        Inr items \<Rightarrow>
          Inr (emit (Fetched batch_index total_batches (length batch) (length items))
                 (add_items (emit (Call batch) st) items))
      | Inl ex \<Rightarrow>
          (if caught ex then
             (if int (attempt + 1) \<le> retries + 1 then
                attempt_loop post retries batch_index total_batches batch (attempt + 1)
                  (emit (Sleep 800) (emit (Warn batch_index total_batches (attempt + 1))
                     (emit (Call batch) st)))
              else Inr (emit (Failed batch_index total_batches) (emit (Call batch) st)))
           else Inl (ex, trace (emit (Call batch) st))))"
  by pat_completeness auto
termination
  by (relation "measure (\<lambda>(post, retries, batch_index, total_batches, batch, attempt, st).
        nat (retries + 2 - int attempt))") auto

declare attempt_loop.simps [simp del]

text \<open>The \<open>for\<close> loop over the enumerated batches, with the sleep after each batch.\<close>

fun fetch_batches ::
  "remote \<Rightarrow> int \<Rightarrow> int \<Rightarrow> int \<Rightarrow> (nat \<times> string list) list \<Rightarrow> fetch_state
     \<Rightarrow> (py_error \<times> event list) + fetch_state"
where
  "fetch_batches post retries sleep_ms total_batches [] st = Inr st"
| "fetch_batches post retries sleep_ms total_batches ((batch_index, batch) # rest) st =
     (case attempt_loop post retries batch_index total_batches batch 0 st of
        Inl err \<Rightarrow> Inl err
      | Inr st1 \<Rightarrow>
          fetch_batches post retries sleep_ms total_batches rest
            (emit (Sleep (nat (max 0 sleep_ms))) st1))"

text \<open>\<open>enumerate(batches, start=1)\<close>\<close>

definition enumerate1 :: "'a list \<Rightarrow> (nat \<times> 'a) list" where
  "enumerate1 xs = zip [1 ..< Suc (length xs)] xs"

subsection \<open>The JSON and CSV outputs\<close>

definition json_slot :: "(slot_key \<times> string) list \<Rightarrow> slot_key \<Rightarrow> string set \<Rightarrow> slot_entry" where
  "json_slot seg_map key day_times =
     \<lparr>courseSlotId = fst (snd key), courseSlotCd = snd (snd key),
      segName = (case map_of seg_map key of Some s \<Rightarrow> s | None \<Rightarrow> []),
      slotPeriodCdDays = sorted_list_of_set day_times\<rparr>"

text \<open>The body of the loop over \<open>slot_map.items()\<close>: \<open>setdefault\<close>, then \<open>append\<close>.\<close>

definition json_step ::
  "(string \<times> CourseMeta) list \<Rightarrow> (slot_key \<times> string) list \<Rightarrow> slots_json
     \<Rightarrow> slot_key \<times> string set \<Rightarrow> slots_json"
where
  "json_step courses seg_map out_json entry =
     (let key = fst entry;
          r = fst key;
          course = course_or_blank courses r;
          out1 = (if map_of out_json r = None
                  then out_json @ [(r, \<lparr>j_rcid = r, j_ccode = ccode course, j_cname = cname course,
                                         j_slots = []\<rparr>)]
                  else out_json)
      in AList.map_entry r
           (\<lambda>c. c\<lparr>j_slots := j_slots c @ [json_slot seg_map key (snd entry)]\<rparr>) out1)"

definition slot_order :: "slot_entry \<Rightarrow> string \<times> string" where
  "slot_order s = (courseSlotId s, courseSlotCd s)"

definition build_json ::
  "(string \<times> CourseMeta) list \<Rightarrow> (slot_key \<times> string set) list \<Rightarrow> (slot_key \<times> string) list
     \<Rightarrow> slots_json"
where
  "build_json courses sl_map seg_map =
     map (\<lambda>(r, c). (r, c\<lparr>j_slots := sort_key slot_order (j_slots c)\<rparr>))
       (foldl (json_step courses seg_map) [] sl_map)"

text \<open>
  \<open>sorted(slot_map.keys(), key=lambda k: (int(k[0]) if k[0].isdigit() else k[0], k[1], k[2]))\<close>
\<close>

definition sorted_slot_keys :: "slot_key list \<Rightarrow> py_error + slot_key list" where
  "sorted_slot_keys ks =
     (if list_ex (\<lambda>k. isdigit (fst k)) ks \<and> list_ex (\<lambda>k. \<not> isdigit (fst k)) ks then Inl TypeError
      else if list_all (\<lambda>k. isdigit (fst k)) ks
        then Inr (sort_key (\<lambda>k. (py_int (fst k), fst (snd k), snd (snd k))) ks)
      else Inr (sort_key (\<lambda>k. k) ks))"

text \<open>\<open>sep.join(xs)\<close>\<close>

fun join :: "string \<Rightarrow> string list \<Rightarrow> string" where
  "join sep [] = []"
| "join sep [x] = x"
| "join sep (x # y # ys) = x @ sep @ join sep (y # ys)"

definition csv_fieldnames :: "string list" where
  "csv_fieldnames = [''rcid'', ''ccode'', ''cname'', ''cegName'', ''slotPeriodCdDays'']"

definition csv_rowdict ::
  "(string \<times> CourseMeta) list \<Rightarrow> (slot_key \<times> string set) list \<Rightarrow> (slot_key \<times> string) list
     \<Rightarrow> slot_key \<Rightarrow> (string \<times> string) list"
where
  "csv_rowdict courses sl_map seg_map key =
     (let r = fst key;
          course = course_or_blank courses r;
          day_times = sorted_list_of_set (case map_of sl_map key of Some d \<Rightarrow> d | None \<Rightarrow> {});
          seg_name = (case map_of seg_map key of Some s \<Rightarrow> s | None \<Rightarrow> [])
      in [(''rcid'', r), (''ccode'', ccode course), (''cname'', cname course),
          (''courseSlotId'', fst (snd key)), (''courseSlotCd'', snd (snd key)),
          (''segName'', seg_name), (''slotPeriodCdDays'', join '' | '' day_times)])"

text \<open>
  The \<open>with\<close> block that writes \<open>slots.csv\<close>: the lines written, and the exception that
  left the block, if any.
\<close>

definition write_csv ::
  "(string \<times> CourseMeta) list \<Rightarrow> (slot_key \<times> string set) list \<Rightarrow> (slot_key \<times> string) list
     \<Rightarrow> string list list \<times> py_error option"
where
  "write_csv courses sl_map seg_map =
     (case sorted_slot_keys (map fst sl_map) of
        Inl ex \<Rightarrow> ([csv_fieldnames], Some ex)
      | Inr keys \<Rightarrow>
          writerows csv_fieldnames (map (csv_rowdict courses sl_map seg_map) keys)
            [csv_fieldnames])"

subsection \<open>main\<close>

record config =
  arg_student_id :: string
  env_student_id :: string
  arg_cookie :: string
  env_cookie :: string
  batch_size :: int
  sleep_ms :: int
  retries :: int

datatype outcome = Exit int | Raised py_error

record run =
  outcome :: outcome
  events :: "event list"
  json_file :: "slots_json option"
  csv_file :: "string list list option"

definition stopped :: "outcome \<Rightarrow> event list \<Rightarrow> run" where
  "stopped out tr = \<lparr>outcome = out, events = tr, json_file = None, csv_file = None\<rparr>"

text \<open>
  The part of \<open>main\<close> from \<open>total_batches\<close> to the end of the loop over the batches.
  \<open>//\<close> is floor division and raises on a zero divisor.
\<close>

definition fetch_all ::
  "remote \<Rightarrow> config \<Rightarrow> string list \<Rightarrow> (py_error \<times> event list) + fetch_state"
where
  "fetch_all post args rcids =
     (if batch_size args = 0 then Inl (ZeroDivisionError, [])
      else
        (let total_batches = (int (length rcids) + batch_size args - 1) div batch_size args in
         case chunked rcids (batch_size args) of
           Inl ex \<Rightarrow> Inl (ex, [])
         | Inr batches \<Rightarrow>
             fetch_batches post (retries args) (sleep_ms args) total_batches (enumerate1 batches)
               \<lparr>slot_map = [], segment_map = [], trace = []\<rparr>))"

text \<open>The part of \<open>main\<close> that writes \<open>slots.json\<close> and then \<open>slots.csv\<close>.\<close>

definition write_outputs :: "(string \<times> CourseMeta) list \<Rightarrow> fetch_state \<Rightarrow> run" where
  "write_outputs courses st =
     (let out_json = build_json courses (slot_map st) (segment_map st);
          written = write_csv courses (slot_map st) (segment_map st)
      in \<lparr>outcome = (case snd written of None \<Rightarrow> Exit 0 | Some ex \<Rightarrow> Raised ex),
          events = trace st,
          json_file = Some out_json,
          csv_file = Some (fst written)\<rparr>)"

definition main :: "remote \<Rightarrow> config \<Rightarrow> csv_row list option list \<Rightarrow> run" where
  "main post args csv_paths =
     (let student_id = (if arg_student_id args \<noteq> [] then arg_student_id args else env_student_id args);
          cookie = (if arg_cookie args \<noteq> [] then arg_cookie args else env_cookie args)
      in if student_id = [] then stopped (Exit 2) []
         else if cookie = [] then stopped (Exit 2) []
         else
           (let courses = read_courses csv_paths in
            case sorted_rcids (map fst courses) of
              Inl ex \<Rightarrow> stopped (Raised ex) []
            | Inr rcids \<Rightarrow>
                if rcids = [] then stopped (Exit 2) []
                else
                  (case fetch_all post args rcids of
                     Inl (ex, tr) \<Rightarrow> stopped (Raised ex) tr
                   | Inr st \<Rightarrow> write_outputs courses st)))"


section \<open>The specification's notions\<close>

text \<open>
  The classifier as the specification describes it: a date falls into the bucket of the
  first boundary it is on or before, and past the last boundary into the catch-all.
\<close>

fun bucket :: "(datetime \<times> int) list \<Rightarrow> int \<Rightarrow> datetime \<Rightarrow> int" where
  "bucket [] catch_all d = catch_all"
| "bucket ((b, l) # bs) catch_all d = (if dt_le d b then l else bucket bs catch_all d)"

definition start_boundaries :: "(datetime \<times> int) list" where
  "start_boundaries = [(jan_05, 1), (feb_10, 2), (feb_26, 3), (mar_23, 4)]"

definition end_boundaries :: "(datetime \<times> int) list" where
  "end_boundaries = [(feb_09, 2), (mar_09, 3), (mar_20, 4), (apr_27, 6)]"

definition dt_less :: "datetime \<Rightarrow> datetime \<Rightarrow> bool" where
  "dt_less a b = (dt_le a b \<and> \<not> dt_le b a)"

definition ascending :: "datetime list \<Rightarrow> bool" where
  "ascending ds = sorted_wrt dt_less ds"

text \<open>The first and the last non-empty string of a list.\<close>

definition first_nonempty :: "string list \<Rightarrow> string option" where
  "first_nonempty xs = find (\<lambda>s. s \<noteq> []) xs"

definition last_nonempty :: "string list \<Rightarrow> string option" where
  "last_nonempty xs = find (\<lambda>s. s \<noteq> []) (rev xs)"

text \<open>The rows of a key that the aggregator keeps, in arrival order.\<close>

definition rows_of :: "slot_key \<Rightarrow> item list \<Rightarrow> item list" where
  "rows_of key items = filter (\<lambda>it. \<not> skipped it \<and> item_key it = key) items"

text \<open>The stored slot list of a course in \<open>slots.json\<close>.\<close>

definition slots_of :: "slots_json \<Rightarrow> string \<Rightarrow> slot_entry list" where
  "slots_of data r = concat (map (\<lambda>e. j_slots (snd e)) (filter (\<lambda>e. fst e = r) data))"

text \<open>The rows of all metadata files that exist, in reading order.\<close>

definition all_rows :: "csv_row list option list \<Rightarrow> csv_row list" where
  "all_rows files = concat (map (\<lambda>f. case f of None \<Rightarrow> [] | Some rows \<Rightarrow> rows) files)"

text \<open>The first metadata row of a course id, and the heuristic segment of a row.\<close>

definition first_row :: "csv_row list option list \<Rightarrow> string \<Rightarrow> csv_row option" where
  "first_row files r = find (\<lambda>row. csv_get row ''rcid'' = r) (all_rows files)"

definition heuristic :: "(string \<Rightarrow> datetime option) \<Rightarrow> csv_row \<Rightarrow> string" where
  "heuristic strptime row =
     determine_segment (parse_date strptime (csv_get row ''strtdt''))
       (parse_date strptime (csv_get row ''enddt''))"



section \<open>Example inputs\<close>

text \<open>
  A \<open>strptime\<close> that knows two date strings, one metadata file with one course running
  from 10 February to 20 March 2026, and two \<open>slots.json\<close> contents for that course.
\<close>

definition demo_strptime :: "string \<Rightarrow> datetime option" where
  "demo_strptime s =
     (if s = ''10 Feb, 2026 00:00'' then Some feb_10
      else if s = ''20 Mar, 2026 00:00'' then Some mar_20
      else None)"

definition demo_row :: csv_row where
  "demo_row =
     [(''rcid'', Some ''101''), (''ccode'', Some ''CS101''), (''cname'', Some ''Algebra''),
      (''coordname'', Some ''Noether''), (''ccrd'', Some ''3''),
      (''strtdt'', Some ''10 Feb, 2026 00:00''), (''enddt'', Some ''20 Mar, 2026 00:00'')]"

definition demo_files :: "csv_row list option list" where
  "demo_files = [Some [demo_row], None, None]"

definition demo_json :: slots_json where
  "demo_json =
     [(''101'', \<lparr>j_rcid = ''101'', j_ccode = ''CS101'', j_cname = ''Algebra'',
         j_slots = [\<lparr>courseSlotId = ''7'', courseSlotCd = ''S1'', segName = ''3'',
                     slotPeriodCdDays = [''Mon 9'']\<rparr>]\<rparr>)]"

definition demo_json_two :: slots_json where
  "demo_json_two =
     [(''101'', \<lparr>j_rcid = ''101'', j_ccode = ''CS101'', j_cname = ''Algebra'',
         j_slots = [\<lparr>courseSlotId = ''7'', courseSlotCd = ''A'', segName = ''1-2'',
                     slotPeriodCdDays = [''Mon 9'']\<rparr>,
                    \<lparr>courseSlotId = ''8'', courseSlotCd = ''B'', segName = ''3-4'',
                     slotPeriodCdDays = [''Tue 9'']\<rparr>]\<rparr>)]"

text \<open>
  A \<open>slots.json\<close> content without any slot code, and the rows of a \<open>slots.csv\<close> that
  names a segment for the same course.
\<close>

definition demo_json_no_code :: slots_json where
  "demo_json_no_code =
     [(''101'', \<lparr>j_rcid = ''101'', j_ccode = ''CS101'', j_cname = ''Algebra'',
         j_slots = [\<lparr>courseSlotId = ''7'', courseSlotCd = [], segName = ''A'',
                     slotPeriodCdDays = [''Mon 9'']\<rparr>,
                    \<lparr>courseSlotId = ''8'', courseSlotCd = [], segName = ''B'',
                     slotPeriodCdDays = [''Tue 9'']\<rparr>]\<rparr>)]"

definition demo_slots_csv :: "csv_row list" where
  "demo_slots_csv =
     [[(''rcid'', Some ''101''), (''courseSlotCd'', Some []), (''segName'', Some ''C'')]]"

text \<open>A response row, and an aggregator state, for a course id the metadata does not have.\<close>

definition demo_item :: item where
  "demo_item =
     [(''runningCourseId'', JInt 999), (''courseSlotId'', JInt 7), (''courseSlotCd'', JStr ''S9''),
      (''slotPeriodCdDays'', JStr ''Fri 9''), (''segName'', JStr ''2'')]"

definition demo_courses :: "(string \<times> CourseMeta) list" where
  "demo_courses = [(''101'', \<lparr>rcid = ''101'', ccode = ''CS101'', cname = ''Algebra''\<rparr>)]"

definition demo_state :: fetch_state where
  "demo_state = add_items \<lparr>slot_map = [], segment_map = [], trace = []\<rparr> [demo_item]"


section \<open>Batching\<close>

lemma concat_chunks_from: "0 < n \<Longrightarrow> concat (chunks_from vs n i) = drop i vs"
proof (induction vs n i rule: chunks_from.induct)
  case (1 vs n i)
  show ?case
  proof (cases "i < length vs")
    case True
    with 1 have "concat (chunks_from vs n (i + n)) = drop (i + n) vs" by simp
    with True 1(2) show ?thesis
      by (subst chunks_from.simps) (simp add: add.commute[of i n] flip: drop_drop)
  next
    case False
    then show ?thesis by (subst chunks_from.simps) simp
  qed
qed

lemma ceil_step:
  fixes m n :: nat
  assumes "0 < n" "0 < m"
  shows "(m + n - 1) div n = Suc ((m - n + n - 1) div n)"
proof -
  define d where "d = m - 1"
  have l: "m + n - 1 = d + n" using assms by (simp add: d_def)
  have step: "(d + n) div n = Suc (d div n)" using assms(1) by simp
  have r: "(m - n + n - 1) div n = d div n"
  proof (cases "n \<le> m")
    case True
    then have "m - n + n - 1 = d" by (simp add: d_def)
    then show ?thesis by simp
  next
    case False
    then have "m - n + n - 1 < n" "d < n" using assms by (simp_all add: d_def)
    then show ?thesis by simp
  qed
  show ?thesis unfolding l r by (rule step)
qed

lemma length_chunks_from:
  "0 < n \<Longrightarrow> length (chunks_from vs n i) = (length vs - i + n - 1) div n"
proof (induction vs n i rule: chunks_from.induct)
  case (1 vs n i)
  show ?case
  proof (cases "i < length vs")
    case True
    with 1 have ih: "length (chunks_from vs n (i + n)) = (length vs - (i + n) + n - 1) div n"
      by simp
    have "(length vs - i + n - 1) div n = Suc ((length vs - i - n + n - 1) div n)"
      using True 1(2) by (intro ceil_step) simp_all
    then have "(length vs - i + n - 1) div n = Suc ((length vs - (i + n) + n - 1) div n)"
      by (simp only: diff_diff_left)
    moreover have "chunks_from vs n i = take n (drop i vs) # chunks_from vs n (i + n)"
      using True 1(2) by (subst chunks_from.simps) simp
    ultimately show ?thesis using ih by simp
  next
    case False
    then show ?thesis using 1(2) by (subst chunks_from.simps) simp
  qed
qed

lemma chunk_sizes_le: "b \<in> set (chunks_from vs n i) \<Longrightarrow> length b \<le> n"
proof (induction vs n i rule: chunks_from.induct)
  case (1 vs n i)
  show ?case
  proof (cases "0 < n \<and> i < length vs")
    case True
    then have "chunks_from vs n i = take n (drop i vs) # chunks_from vs n (i + n)"
      by (subst chunks_from.simps) simp
    with 1(2) have "b = take n (drop i vs) \<or> b \<in> set (chunks_from vs n (i + n))" by simp
    then show ?thesis using 1(1)[OF True] by auto
  next
    case False
    then have "chunks_from vs n i = []" by (subst chunks_from.simps) auto
    with 1(2) show ?thesis by simp
  qed
qed

lemma chunk_sizes_full:
  "Suc k < length (chunks_from vs n i) \<Longrightarrow> length (chunks_from vs n i ! k) = n"
proof (induction vs n i arbitrary: k rule: chunks_from.induct)
  case (1 vs n i)
  show ?case
  proof (cases "0 < n \<and> i < length vs")
    case True
    then have eq: "chunks_from vs n i = take n (drop i vs) # chunks_from vs n (i + n)"
      by (subst chunks_from.simps) simp
    show ?thesis
    proof (cases k)
      case 0
      with 1(2) eq have "chunks_from vs n (i + n) \<noteq> []" by auto
      then have "i + n < length vs" by (subst (asm) chunks_from.simps) (auto split: if_splits)
      with 0 eq show ?thesis by simp
    next
      case (Suc j)
      with 1(2) eq have "Suc j < length (chunks_from vs n (i + n))" by simp
      with 1(1)[OF True] Suc eq show ?thesis by simp
    qed
  next
    case False
    then have "chunks_from vs n i = []" by (subst chunks_from.simps) auto
    with 1(2) show ?thesis by simp
  qed
qed

lemma ceil_div:
  fixes m n :: nat
  assumes "0 < n"
  shows "int ((m + n - 1) div n) = \<lceil>real m / real n\<rceil>"
proof -
  define k where "k = (m + n - 1) div n"
  have up: "m + n - 1 < (k + 1) * n"
    using assms unfolding k_def
    by (metis Suc_eq_plus1 dividend_less_div_times mult.commute add.commute mult_Suc)
  have lo: "k * n \<le> m + n - 1"
    unfolding k_def by simp
  have a: "real m \<le> real k * real n"
  proof -
    from up assms have "m \<le> k * n" by (simp add: algebra_simps)
    then show ?thesis by (metis of_nat_le_iff of_nat_mult)
  qed
  have b: "(real k - 1) * real n < real m"
  proof -
    from lo assms have "k * n < m + n" by arith
    then have "real (k * n) < real (m + n)" by (simp only: of_nat_less_iff)
    then show ?thesis by (simp add: algebra_simps)
  qed
  have "\<lceil>real m / real n\<rceil> = int k"
  proof (rule ceiling_unique)
    show "of_int (int k) - 1 < real m / real n" using b assms by (simp add: pos_less_divide_eq)
    show "real m / real n \<le> of_int (int k)" using a assms by (simp add: pos_divide_le_eq)
  qed
  then show ?thesis by (simp add: k_def)
qed

lemma fetch_all_bad_batch_size:
  assumes "batch_size args \<le> 0"
  shows "\<exists>ex. fetch_all post args rcids = Inl (ex, [])"
  using assms by (simp add: fetch_all_def chunked_def)

lemma main_bad_batch_size:
  assumes "batch_size args \<le> 0"
  shows "calls (events (main post args csv_paths)) = 0 \<and> outcome (main post args csv_paths) \<noteq> Exit 0"
proof -
  have stop: "calls (events (stopped out [])) = 0" for out
    by (simp add: stopped_def calls_def)
  have out: "outcome (stopped out tr) = out" for out tr
    by (simp add: stopped_def)
  show ?thesis
  proof (cases "sorted_rcids (map fst (read_courses csv_paths))")
    case (Inl ex)
    then show ?thesis by (simp add: main_def Let_def stop out)
  next
    case (Inr rcids)
    from fetch_all_bad_batch_size[OF assms, of post rcids]
    obtain ex where "fetch_all post args rcids = Inl (ex, [])" by blast
    with Inr show ?thesis by (simp add: main_def Let_def stop out)
  qed
qed

text \<open>
  C4. For a batch size \<open>B > 0\<close>, \<open>chunked\<close> yields \<open>ceil(N / B)\<close> batches for a list of
  \<open>N\<close> ids, each of at most \<open>B\<close> ids and every batch but the last of exactly \<open>B\<close>, whose
  concatenation is the input list. For \<open>B \<le> 0\<close> it raises, and a run of \<open>main\<close> with such
  a batch size ends with an error without a single request to the remote endpoint.
\<close>

theorem chunked_partition:
  "(0 < B \<longrightarrow>
      (\<exists>bs. chunked ids B = Inr bs
         \<and> int (length bs) = \<lceil>real (length ids) / real_of_int B\<rceil>
         \<and> (\<forall>b \<in> set bs. length b \<le> nat B)
         \<and> (\<forall>k. Suc k < length bs \<longrightarrow> length (bs ! k) = nat B)
         \<and> concat bs = ids))
   \<and> (B \<le> 0 \<longrightarrow> chunked ids B = Inl ValueError)
   \<and> (batch_size args \<le> 0 \<longrightarrow>
        calls (events (main post args csv_paths)) = 0
        \<and> outcome (main post args csv_paths) \<noteq> Exit 0)"
proof (intro conjI impI)
  assume pos: "0 < B"
  then have n: "0 < nat B" by simp
  have r: "real (nat B) = real_of_int B" using pos by simp
  have "int (length (chunks_from ids (nat B) 0)) = int ((length ids + nat B - 1) div nat B)"
    using length_chunks_from[OF n, of ids 0] by simp
  also have "\<dots> = \<lceil>real (length ids) / real (nat B)\<rceil>"
    by (rule ceil_div[OF n])
  finally have len: "int (length (chunks_from ids (nat B) 0)) = \<lceil>real (length ids) / real_of_int B\<rceil>"
    by (simp only: r)
  have le: "\<forall>b \<in> set (chunks_from ids (nat B) 0). length b \<le> nat B"
    by (simp add: chunk_sizes_le)
  have full: "\<forall>k. Suc k < length (chunks_from ids (nat B) 0)
                \<longrightarrow> length (chunks_from ids (nat B) 0 ! k) = nat B"
    by (simp add: chunk_sizes_full)
  have cat: "concat (chunks_from ids (nat B) 0) = ids"
    using concat_chunks_from[OF n, of ids 0] by simp
  have eq: "chunked ids B = Inr (chunks_from ids (nat B) 0)"
    using pos by (simp add: chunked_def)
  show "\<exists>bs. chunked ids B = Inr bs
         \<and> int (length bs) = \<lceil>real (length ids) / real_of_int B\<rceil>
         \<and> (\<forall>b \<in> set bs. length b \<le> nat B)
         \<and> (\<forall>k. Suc k < length bs \<longrightarrow> length (bs ! k) = nat B)
         \<and> concat bs = ids"
    using eq len le full cat by blast
next
  assume "B \<le> 0"
  then show "chunked ids B = Inl ValueError" by (simp add: chunked_def)
next
  assume "batch_size args \<le> 0"
  then show "calls (events (main post args csv_paths)) = 0"
    using main_bad_batch_size by blast
next
  assume "batch_size args \<le> 0"
  then show "outcome (main post args csv_paths) \<noteq> Exit 0"
    using main_bad_batch_size by blast
qed


theorem chunked_partition_witness:
  "0 < (2::int)
   \<and> chunked [''101'', ''102'', ''103'', ''104'', ''105''] 2
       = Inr [[''101'', ''102''], [''103'', ''104''], [''105'']]
   \<and> \<lceil>real (length [''101'', ''102'', ''103'', ''104'', ''105'']) / real_of_int 2\<rceil> = 3
   \<and> (0::int) \<le> 0
   \<and> chunked [''101'', ''102'', ''103''] 0 = Inl ValueError
   \<and> calls (events (main (\<lambda>k b. Inr [])
         \<lparr>arg_student_id = ''s'', env_student_id = [], arg_cookie = ''c'', env_cookie = [],
          batch_size = 0, sleep_ms = 200, retries = 2\<rparr>
         [Some [[(''rcid'', Some ''101'')]]])) = 0"
proof -
  have c: "chunked [''101'', ''102'', ''103'', ''104'', ''105''] 2
       = Inr [[''101'', ''102''], [''103'', ''104''], [''105'']]"
    by (simp add: chunked_def chunks_from.simps)
  have "\<lceil>real (length [''101'', ''102'', ''103'', ''104'', ''105'']) / real_of_int 2\<rceil> = 3"
    using chunked_partition[where B = 2 and ids = "[''101'', ''102'', ''103'', ''104'', ''105'']"] c
    by auto
  moreover have "chunked [''101'', ''102'', ''103''] 0 = Inl ValueError"
    using chunked_partition[where B = 0 and ids = "[''101'', ''102'', ''103'']"] by simp
  moreover have "calls (events (main (\<lambda>k b. Inr [])
         \<lparr>arg_student_id = ''s'', env_student_id = [], arg_cookie = ''c'', env_cookie = [],
          batch_size = 0, sleep_ms = 200, retries = 2\<rparr>
         [Some [[(''rcid'', Some ''101'')]]])) = 0"
    using chunked_partition[where args = "\<lparr>arg_student_id = ''s'', env_student_id = [],
          arg_cookie = ''c'', env_cookie = [], batch_size = 0, sleep_ms = 200, retries = 2\<rparr>"
          and post = "\<lambda>k b. Inr []" and csv_paths = "[Some [[(''rcid'', Some ''101'')]]]"
          and B = 0 and ids = "[''101'', ''102'', ''103'']"] by simp
  ultimately show ?thesis using c by simp
qed



section \<open>The segment classifier\<close>

lemma start_seg_bucket: "start_seg d = bucket start_boundaries 5 d"
  by (simp add: start_seg_def start_boundaries_def)

lemma end_seg_bucket: "end_seg d = bucket end_boundaries 6 d"
  by (simp add: end_seg_def end_boundaries_def)

lemma start_seg_range: "start_seg d \<in> {1, 2, 3, 4, 5}"
  by (simp add: start_seg_def)

lemma end_seg_range: "end_seg d \<in> {2, 3, 4, 6}"
  by (simp add: end_seg_def)

lemma boundaries_ascending:
  "ascending (map fst start_boundaries)" "ascending (map fst end_boundaries)"
  by (simp_all add: ascending_def start_boundaries_def end_boundaries_def dt_less_def dt_le_def
      dt_key_def jan_05_def feb_09_def feb_10_def feb_26_def mar_09_def mar_20_def mar_23_def
      apr_27_def mk_date_def)

lemma dt_le_trans: "dt_le a b \<Longrightarrow> dt_le b c \<Longrightarrow> dt_le a c"
  unfolding dt_le_def by (rule order_trans)

lemma before_mar_23: "dt_le jan_05 mar_23" "dt_le feb_10 mar_23" "dt_le feb_26 mar_23"
  by (simp_all add: dt_le_def dt_key_def jan_05_def feb_10_def feb_26_def mar_23_def mk_date_def)

lemma past_last_start:
  assumes "\<not> dt_le a mar_23"
  shows "bucket start_boundaries 5 a = 5"
proof -
  have "\<not> dt_le a jan_05" "\<not> dt_le a feb_10" "\<not> dt_le a feb_26"
    using assms before_mar_23 dt_le_trans by blast+
  with assms show ?thesis by (simp add: start_boundaries_def)
qed

lemma before_apr_27: "dt_le feb_09 apr_27" "dt_le mar_09 apr_27" "dt_le mar_20 apr_27"
  by (simp_all add: dt_le_def dt_key_def feb_09_def mar_09_def mar_20_def apr_27_def mk_date_def)

lemma past_last_end:
  assumes "\<not> dt_le b apr_27"
  shows "bucket end_boundaries 6 b = 6"
proof -
  have "\<not> dt_le b feb_09" "\<not> dt_le b mar_09" "\<not> dt_le b mar_20"
    using assms before_apr_27 dt_le_trans by blast+
  with assms show ?thesis by (simp add: end_boundaries_def)
qed

lemma determine_segment_Some:
  "determine_segment (Some a) (Some b) = str_int (start_seg a) @ ''-'' @ str_int (end_seg b)"
  using start_seg_range[of a] end_seg_range[of b]
  by (auto simp add: determine_segment_def)

text \<open>
  C3. \<open>determine_segment\<close> returns the empty string when either date is missing (the
  value \<open>parse_date\<close> gives for an unparseable one). Otherwise it returns the start bucket,
  a dash and the end bucket. The start bucket is found by on-or-before comparison against
  the ascending boundaries of labels 1 to 4, with the open-ended fifth bucket, label 5,
  catching every later date; the end bucket by comparison against four ascending
  boundaries of labels 2, 3, 4, 6, every date past the last one mapping to 6 as well.
\<close>

theorem determine_segment_buckets:
  "determine_segment None e = []
   \<and> determine_segment s None = []
   \<and> determine_segment (Some a) (Some b)
       = str_int (bucket start_boundaries 5 a) @ ''-'' @ str_int (bucket end_boundaries 6 b)
   \<and> map snd start_boundaries = [1, 2, 3, 4]
   \<and> map snd end_boundaries = [2, 3, 4, 6]
   \<and> ascending (map fst start_boundaries)
   \<and> ascending (map fst end_boundaries)
   \<and> bucket start_boundaries 5 a \<in> {1, 2, 3, 4, 5}
   \<and> bucket end_boundaries 6 b \<in> {2, 3, 4, 6}
   \<and> (\<not> dt_le a mar_23 \<longrightarrow> bucket start_boundaries 5 a = 5)
   \<and> (\<not> dt_le b apr_27 \<longrightarrow> bucket end_boundaries 6 b = 6)"
proof -
  have "determine_segment None e = []" by (simp add: determine_segment_def)
  moreover have "determine_segment s None = []"
    by (simp add: determine_segment_def split: option.splits)
  moreover have "determine_segment (Some a) (Some b)
       = str_int (bucket start_boundaries 5 a) @ ''-'' @ str_int (bucket end_boundaries 6 b)"
    by (simp only: determine_segment_Some start_seg_bucket end_seg_bucket)
  moreover have "map snd start_boundaries = [1, 2, 3, 4]" by (simp add: start_boundaries_def)
  moreover have "map snd end_boundaries = [2, 3, 4, 6]" by (simp add: end_boundaries_def)
  moreover have "bucket start_boundaries 5 a \<in> {1, 2, 3, 4, 5}"
    using start_seg_range[of a] by (simp only: start_seg_bucket)
  moreover have "bucket end_boundaries 6 b \<in> {2, 3, 4, 6}"
    using end_seg_range[of b] by (simp only: end_seg_bucket)
  moreover have "\<not> dt_le a mar_23 \<longrightarrow> bucket start_boundaries 5 a = 5"
    using past_last_start by blast
  moreover have "\<not> dt_le b apr_27 \<longrightarrow> bucket end_boundaries 6 b = 6"
    using past_last_end by blast
  ultimately show ?thesis using boundaries_ascending by blast
qed


theorem determine_segment_buckets_witness:
  "determine_segment None (Some apr_27) = []
   \<and> determine_segment (Some jan_05) None = []
   \<and> determine_segment (Some (mk_date 2026 2 15)) (Some (mk_date 2026 5 1)) = ''3-6''
   \<and> determine_segment (Some (mk_date 2026 3 24)) (Some (mk_date 2026 5 1)) = ''5-6''
   \<and> \<not> dt_le (mk_date 2026 3 24) mar_23
   \<and> \<not> dt_le (mk_date 2026 5 1) apr_27"
proof -
  have late: "\<not> dt_le (mk_date 2026 3 24) mar_23" "\<not> dt_le (mk_date 2026 5 1) apr_27"
    by (simp_all add: dt_le_def dt_key_def mar_23_def apr_27_def mk_date_def)
  have mid: "bucket start_boundaries 5 (mk_date 2026 2 15) = 3"
    by (simp add: start_boundaries_def dt_le_def dt_key_def jan_05_def feb_10_def feb_26_def
        mk_date_def)
  have digits: "str_int 3 = ''3''" "str_int 5 = ''5''" "str_int 6 = ''6''"
    by (simp_all add: str_int_def digit_char_def)
  show ?thesis
    using late mid digits
      determine_segment_buckets[where a = "mk_date 2026 2 15" and b = "mk_date 2026 5 1"
        and s = "Some jan_05" and e = "Some apr_27"]
      determine_segment_buckets[where a = "mk_date 2026 3 24" and b = "mk_date 2026 5 1"
        and s = "Some jan_05" and e = "Some apr_27"]
    by simp
qed

text \<open>
  C8. With a parseable end date, a start date exactly on the boundary between start
  bucket 1 and start bucket 2 (5 January 2026, 00:00) is classified into bucket 1: the
  boundary belongs to the lower bucket, and every later start date up to the next boundary
  (10 February 2026, itself in bucket 2) is in bucket 2.
\<close>

theorem boundary_is_inclusive:
  "start_seg jan_05 = 1
   \<and> start_seg feb_10 = 2
   \<and> determine_segment (Some jan_05) (Some e) = ''1-'' @ str_int (end_seg e)
   \<and> (dt_less jan_05 s \<and> dt_le s feb_10 \<longrightarrow> start_seg s = 2)"
proof -
  have one: "start_seg jan_05 = 1"
    by (simp add: start_seg_def dt_le_def)
  have "str_int 1 = ''1''" by (simp add: str_int_def digit_char_def)
  with one have "determine_segment (Some jan_05) (Some e) = ''1-'' @ str_int (end_seg e)"
    by (simp add: determine_segment_Some)
  moreover have "dt_less jan_05 s \<and> dt_le s feb_10 \<longrightarrow> start_seg s = 2"
    by (simp add: start_seg_def dt_less_def)
  moreover have "start_seg feb_10 = 2"
    by (simp add: start_seg_def dt_le_def dt_key_def jan_05_def feb_10_def mk_date_def)
  ultimately show ?thesis using one by blast
qed

theorem boundary_is_inclusive_witness:
  "determine_segment (Some jan_05) (Some mar_20) = ''1-4''
   \<and> dt_less jan_05 (jan_05\<lparr>minute := 1\<rparr>) \<and> dt_le (jan_05\<lparr>minute := 1\<rparr>) feb_10
   \<and> start_seg (jan_05\<lparr>minute := 1\<rparr>) = 2"
proof -
  have h: "dt_less jan_05 (jan_05\<lparr>minute := 1\<rparr>)" "dt_le (jan_05\<lparr>minute := 1\<rparr>) feb_10"
    by (simp_all add: dt_less_def dt_le_def dt_key_def jan_05_def feb_10_def mk_date_def)
  have e: "str_int (end_seg mar_20) = ''4''"
    by (simp add: end_seg_def dt_le_def dt_key_def feb_09_def mar_09_def mar_20_def mk_date_def
        str_int_def digit_char_def)
  show ?thesis
    using h e boundary_is_inclusive[where e = mar_20 and s = "jan_05\<lparr>minute := 1\<rparr>"]
    by simp
qed



section \<open>The aggregator\<close>

lemma add_item_skipped: "skipped it \<Longrightarrow> add_item st it = st"
  by (simp add: add_item_def)

lemma add_item_kept:
  assumes "\<not> skipped it"
  shows "slot_map (add_item st it) =
           AList.update (item_key it)
             (insert (field it ''slotPeriodCdDays'')
                (case map_of (slot_map st) (item_key it) of Some d \<Rightarrow> d | None \<Rightarrow> {}))
             (slot_map st)"
    and "segment_map (add_item st it) =
           (if field it ''segName'' \<noteq> [] \<and> map_of (segment_map st) (item_key it) = None
            then AList.update (item_key it) (field it ''segName'') (segment_map st)
            else segment_map st)"
    and "agg.more (add_item st it) = agg.more st"
  using assms by (simp_all add: add_item_def Let_def)

lemma add_item_twice: "add_item (add_item st it) it = add_item st it"
proof (cases "skipped it")
  case True
  then show ?thesis by (simp add: add_item_skipped)
next
  case False
  have "slot_map (add_item (add_item st it) it) = slot_map (add_item st it)"
    by (simp add: add_item_kept(1)[OF False] update_conv')
  moreover have "segment_map (add_item (add_item st it) it) = segment_map (add_item st it)"
    by (simp add: add_item_kept(2)[OF False] update_conv')
  moreover have "agg.more (add_item (add_item st it) it) = agg.more (add_item st it)"
    by (simp add: add_item_kept(3)[OF False])
  ultimately show ?thesis by (intro agg.equality) simp_all
qed

text \<open>
  C7. Inserting the same raw row twice leaves the aggregator in exactly the state one
  insertion gives: the same day/time set and the same segment name under every key.
\<close>

theorem insertion_idempotent:
  "add_item (add_item st it) it = add_item st it
   \<and> add_items st [it, it] = add_items st [it]"
  by (simp add: add_items_def add_item_twice)

theorem insertion_idempotent_witness:
  "slot_map (add_items \<lparr>slot_map = [], segment_map = []\<rparr>
       [[(''runningCourseId'', JInt 101), (''courseSlotId'', JInt 7), (''courseSlotCd'', JStr ''S1''),
         (''slotPeriodCdDays'', JStr ''Mon 9''), (''segName'', JStr ''A'')],
        [(''runningCourseId'', JInt 101), (''courseSlotId'', JInt 7), (''courseSlotCd'', JStr ''S1''),
         (''slotPeriodCdDays'', JStr ''Mon 9''), (''segName'', JStr ''A'')]])
     = [((''101'', ''7'', ''S1''), {''Mon 9''})]"
proof -
  have once: "slot_map (add_items \<lparr>slot_map = [], segment_map = []\<rparr>
       [[(''runningCourseId'', JInt 101), (''courseSlotId'', JInt 7), (''courseSlotCd'', JStr ''S1''),
         (''slotPeriodCdDays'', JStr ''Mon 9''), (''segName'', JStr ''A'')]])
     = [((''101'', ''7'', ''S1''), {''Mon 9''})]"
    by code_simp
  show ?thesis
    using once insertion_idempotent[where st = "\<lparr>slot_map = [], segment_map = []\<rparr>"
        and it = "[(''runningCourseId'', JInt 101), (''courseSlotId'', JInt 7),
          (''courseSlotCd'', JStr ''S1''), (''slotPeriodCdDays'', JStr ''Mon 9''),
          (''segName'', JStr ''A'')]"]
    by simp
qed

lemma segment_after_item:
  "map_of (segment_map (add_item st it)) key =
     (case map_of (segment_map st) key of
        Some s \<Rightarrow> Some s
      | None \<Rightarrow> first_nonempty (map (\<lambda>it. field it ''segName'') (rows_of key [it])))"
proof (cases "skipped it")
  case True
  then show ?thesis
    by (simp add: add_item_skipped rows_of_def first_nonempty_def split: option.splits)
next
  case False
  then show ?thesis
    by (auto simp add: add_item_kept(2) update_conv' rows_of_def first_nonempty_def
        split: option.splits)
qed

lemma rows_of_Cons: "rows_of key (it # items) = rows_of key [it] @ rows_of key items"
  by (simp add: rows_of_def)

lemma first_nonempty_append:
  "first_nonempty (xs @ ys) = (case first_nonempty xs of Some s \<Rightarrow> Some s | None \<Rightarrow> first_nonempty ys)"
  unfolding first_nonempty_def by (induction xs) auto

lemma segment_after_items:
  "map_of (segment_map (add_items st items)) key =
     (case map_of (segment_map st) key of
        Some s \<Rightarrow> Some s
      | None \<Rightarrow> first_nonempty (map (\<lambda>it. field it ''segName'') (rows_of key items)))"
proof (induction items arbitrary: st)
  case Nil
  then show ?case
    by (simp add: add_items_def rows_of_def first_nonempty_def split: option.splits)
next
  case (Cons it items)
  have "add_items st (it # items) = add_items (add_item st it) items"
    by (simp add: add_items_def)
  then show ?case
    using Cons.IH[of "add_item st it"] segment_after_item[of st it key]
    by (simp add: rows_of_Cons[of key it items] first_nonempty_append split: option.splits)
qed

text \<open>
  C6. For every key, the segment name the aggregator holds after a sequence of rows is
  the first non-empty segment name among the rows of that key it keeps, in arrival
  order; a name already recorded for the key is never overwritten by a later row.
\<close>

theorem segment_first_wins:
  "map_of (segment_map (add_items \<lparr>slot_map = [], segment_map = []\<rparr> items)) key
     = first_nonempty (map (\<lambda>it. field it ''segName'') (rows_of key items))
   \<and> (map_of (segment_map st) key = Some s
        \<longrightarrow> map_of (segment_map (add_items st items)) key = Some s)"
  using segment_after_items[of "\<lparr>slot_map = [], segment_map = []\<rparr>" items key]
    segment_after_items[of st items key]
  by simp


theorem segment_first_wins_witness:
  "map_of (segment_map (add_items \<lparr>slot_map = [], segment_map = []\<rparr>
       [[(''runningCourseId'', JInt 101), (''courseSlotId'', JInt 7), (''courseSlotCd'', JStr ''S1''),
         (''slotPeriodCdDays'', JStr ''Mon 9''), (''segName'', JStr ''A'')],
        [(''runningCourseId'', JInt 101), (''courseSlotId'', JInt 7), (''courseSlotCd'', JStr ''S1''),
         (''slotPeriodCdDays'', JStr ''Tue 9''), (''segName'', JStr ''B'')]]))
     (''101'', ''7'', ''S1'') = Some ''A''
   \<and> map_of (segment_map \<lparr>slot_map = [], segment_map = [((''101'', ''7'', ''S1''), ''A'')]\<rparr>)
       (''101'', ''7'', ''S1'') = Some ''A''
   \<and> map_of (segment_map (add_items
         \<lparr>slot_map = [], segment_map = [((''101'', ''7'', ''S1''), ''A'')]\<rparr>
         [[(''runningCourseId'', JInt 101), (''courseSlotId'', JInt 7), (''courseSlotCd'', JStr ''S1''),
           (''slotPeriodCdDays'', JStr ''Tue 9''), (''segName'', JStr ''B'')]]))
       (''101'', ''7'', ''S1'') = Some ''A''"
proof -
  have first: "first_nonempty (map (\<lambda>it. field it ''segName'') (rows_of (''101'', ''7'', ''S1'')
       [[(''runningCourseId'', JInt 101), (''courseSlotId'', JInt 7), (''courseSlotCd'', JStr ''S1''),
         (''slotPeriodCdDays'', JStr ''Mon 9''), (''segName'', JStr ''A'')],
        [(''runningCourseId'', JInt 101), (''courseSlotId'', JInt 7), (''courseSlotCd'', JStr ''S1''),
         (''slotPeriodCdDays'', JStr ''Tue 9''), (''segName'', JStr ''B'')]])) = Some ''A''"
    by code_simp
  show ?thesis
    using first
      segment_first_wins[where key = "(''101'', ''7'', ''S1'')" and s = "''A''"
        and st = "\<lparr>slot_map = [], segment_map = [((''101'', ''7'', ''S1''), ''A'')]\<rparr>"
        and items = "[[(''runningCourseId'', JInt 101), (''courseSlotId'', JInt 7),
           (''courseSlotCd'', JStr ''S1''), (''slotPeriodCdDays'', JStr ''Tue 9''),
           (''segName'', JStr ''B'')]]"]
      segment_first_wins[where key = "(''101'', ''7'', ''S1'')" and s = "''A''"
        and st = "\<lparr>slot_map = [], segment_map = [((''101'', ''7'', ''S1''), ''A'')]\<rparr>"
        and items = "[[(''runningCourseId'', JInt 101), (''courseSlotId'', JInt 7), (''courseSlotCd'', JStr ''S1''),
         (''slotPeriodCdDays'', JStr ''Mon 9''), (''segName'', JStr ''A'')],
        [(''runningCourseId'', JInt 101), (''courseSlotId'', JInt 7), (''courseSlotCd'', JStr ''S1''),
         (''slotPeriodCdDays'', JStr ''Tue 9''), (''segName'', JStr ''B'')]]"]
    by simp
qed

section \<open>The retry loop\<close>

lemma calls_emit:
  "calls (trace (emit e st)) = calls (trace st) + (if is_call e then 1 else 0)"
  by (simp add: emit_def calls_def)

lemma maps_emit: "slot_map (emit e st) = slot_map st" "segment_map (emit e st) = segment_map st"
  by (simp_all add: emit_def)

lemma attempts_when_all_fail:
  assumes "\<forall>k. \<exists>ex. post k batch = Inl ex \<and> caught ex"
  shows "\<exists>st'. attempt_loop post budget batch_index total_batches batch attempt st = Inr st'
           \<and> calls (trace st') = calls (trace st) + max 1 (nat (budget + 2 - int attempt))
           \<and> slot_map st' = slot_map st \<and> segment_map st' = segment_map st"
  using assms
proof (induction post budget batch_index total_batches batch attempt st rule: attempt_loop.induct)
  case (1 post budget batch_index total_batches batch attempt st)
  from "1.prems" obtain ex where ex: "post (calls (trace st)) batch = Inl ex" "caught ex"
    by blast
  show ?case
  proof (cases "int (attempt + 1) \<le> budget + 1")
    case True
    let ?st1 = "emit (Sleep 800) (emit (Warn batch_index total_batches (attempt + 1))
                     (emit (Call batch) st))"
    from "1.IH"[OF ex True "1.prems"]
    obtain st' where st':
      "attempt_loop post budget batch_index total_batches batch (attempt + 1) ?st1 = Inr st'"
      "calls (trace st') = calls (trace ?st1) + max 1 (nat (budget + 2 - int (attempt + 1)))"
      "slot_map st' = slot_map ?st1" "segment_map st' = segment_map ?st1"
      by blast
    have "attempt_loop post budget batch_index total_batches batch attempt st = Inr st'"
      using ex True st'(1) by (subst attempt_loop.simps) simp
    moreover have "calls (trace ?st1) = calls (trace st) + 1"
      by (simp add: calls_emit is_call_def)
    moreover have "1 + max 1 (nat (budget + 2 - int (attempt + 1)))
                     = max 1 (nat (budget + 2 - int attempt))"
      using True by simp
    ultimately show ?thesis using st' by (simp add: maps_emit)
  next
    case False
    have "attempt_loop post budget batch_index total_batches batch attempt st
            = Inr (emit (Failed batch_index total_batches) (emit (Call batch) st))"
      using ex False by (subst attempt_loop.simps) simp
    moreover have "max 1 (nat (budget + 2 - int attempt)) = 1"
      using False by simp
    ultimately show ?thesis by (simp add: calls_emit is_call_def maps_emit)
  qed
qed

text \<open>
  C1. With the default budget \<open>retries = 2\<close> and a first batch whose request fails on
  every attempt, the run sends four requests for that batch, not the \<open>retries + 1 = 3\<close>
  of the specification, with a sleep of 0.8 s after each failed attempt that is retried.
  After that the batch is logged as failed, it contributes no row, and the run goes on
  with the second batch and ends normally.
\<close>

theorem retry_budget_off_by_one:
  "events (main (\<lambda>k b. if b = [''101''] then Inl URLError else Inr [])
       \<lparr>arg_student_id = ''s'', env_student_id = [], arg_cookie = ''c'', env_cookie = [],
        batch_size = 1, sleep_ms = 200, retries = 2\<rparr>
       [Some [[(''rcid'', Some ''101'')], [(''rcid'', Some ''102'')]]])
     = [Call [''101''], Warn 1 2 1, Sleep 800,
        Call [''101''], Warn 1 2 2, Sleep 800,
        Call [''101''], Warn 1 2 3, Sleep 800,
        Call [''101''], Failed 1 2, Sleep 200,
        Call [''102''], Fetched 2 2 1 0, Sleep 200]
   \<and> length (filter (\<lambda>e. e = Call [''101''])
        (events (main (\<lambda>k b. if b = [''101''] then Inl URLError else Inr [])
           \<lparr>arg_student_id = ''s'', env_student_id = [], arg_cookie = ''c'', env_cookie = [],
            batch_size = 1, sleep_ms = 200, retries = 2\<rparr>
           [Some [[(''rcid'', Some ''101'')], [(''rcid'', Some ''102'')]]]))) = 4
   \<and> json_file (main (\<lambda>k b. if b = [''101''] then Inl URLError else Inr [])
       \<lparr>arg_student_id = ''s'', env_student_id = [], arg_cookie = ''c'', env_cookie = [],
        batch_size = 1, sleep_ms = 200, retries = 2\<rparr>
       [Some [[(''rcid'', Some ''101'')], [(''rcid'', Some ''102'')]]]) = Some []
   \<and> outcome (main (\<lambda>k b. if b = [''101''] then Inl URLError else Inr [])
       \<lparr>arg_student_id = ''s'', env_student_id = [], arg_cookie = ''c'', env_cookie = [],
        batch_size = 1, sleep_ms = 200, retries = 2\<rparr>
       [Some [[(''rcid'', Some ''101'')], [(''rcid'', Some ''102'')]]]) = Exit 0"
  by code_simp

section \<open>Writing slots.csv\<close>

lemma writerow_slots_csv:
  "writerow csv_fieldnames (csv_rowdict courses sl_map seg_map key) = Inl ValueError"
  by (simp add: writerow_def csv_fieldnames_def csv_rowdict_def Let_def)

lemma sort_key_Nil_iff: "sort_key f xs = [] \<longleftrightarrow> xs = []"
  by (metis length_sort list.size(3) length_0_conv)

lemma write_csv_raises:
  assumes "sl_map \<noteq> []"
  shows "\<exists>ex. write_csv courses sl_map seg_map = ([csv_fieldnames], Some ex)"
proof (cases "sorted_slot_keys (map fst sl_map)")
  case (Inl ex)
  then show ?thesis by (simp add: write_csv_def)
next
  case (Inr keys)
  with assms have "keys \<noteq> []"
    by (auto simp add: sorted_slot_keys_def sort_key_Nil_iff split: if_splits)
  then obtain k ks where "keys = k # ks" by (cases keys) auto
  with Inr show ?thesis by (simp add: write_csv_def writerow_slots_csv)
qed

text \<open>
  C2. A run that passes the configuration check and fetches a single well-formed row
  ends with an uncaught \<open>ValueError\<close> while writing \<open>slots.csv\<close>: the row dictionary has
  the keys \<open>courseSlotId\<close>, \<open>courseSlotCd\<close> and \<open>segName\<close>, which the declared field
  names (\<open>cegName\<close> among them) do not contain. Only the header line is written.
\<close>

theorem slots_csv_write_raises:
  "outcome (main (\<lambda>k b. Inr [[(''runningCourseId'', JInt 101), (''courseSlotId'', JInt 7),
         (''courseSlotCd'', JStr ''S1''), (''slotPeriodCdDays'', JStr ''Mon 9''),
         (''segName'', JStr ''2'')]])
       \<lparr>arg_student_id = ''s'', env_student_id = [], arg_cookie = ''c'', env_cookie = [],
        batch_size = 20, sleep_ms = 200, retries = 2\<rparr>
       [Some [[(''rcid'', Some ''101''), (''ccode'', Some ''CS101''), (''cname'', Some ''Algebra'')]]])
     = Raised ValueError
   \<and> csv_file (main (\<lambda>k b. Inr [[(''runningCourseId'', JInt 101), (''courseSlotId'', JInt 7),
         (''courseSlotCd'', JStr ''S1''), (''slotPeriodCdDays'', JStr ''Mon 9''),
         (''segName'', JStr ''2'')]])
       \<lparr>arg_student_id = ''s'', env_student_id = [], arg_cookie = ''c'', env_cookie = [],
        batch_size = 20, sleep_ms = 200, retries = 2\<rparr>
       [Some [[(''rcid'', Some ''101''), (''ccode'', Some ''CS101''), (''cname'', Some ''Algebra'')]]])
     = Some [[''rcid'', ''ccode'', ''cname'', ''cegName'', ''slotPeriodCdDays'']]"
  by code_simp



section \<open>The merger\<close>

lemma add_course_lookup:
  assumes "r \<noteq> []"
  shows "map_of (add_course strptime cs row) r =
     (case map_of cs r of
        Some c \<Rightarrow> Some c
      | None \<Rightarrow> if csv_get row ''rcid'' = r then Some (course_of_row strptime row) else None)"
  using assms by (auto simp add: add_course_def Let_def map_add_def split: option.splits)

lemma courses_fold_lookup:
  assumes "r \<noteq> []"
  shows "map_of (foldl (add_course strptime) cs rows) r =
     (case map_of cs r of
        Some c \<Rightarrow> Some c
      | None \<Rightarrow> map_option (course_of_row strptime) (find (\<lambda>row. csv_get row ''rcid'' = r) rows))"
proof (induction rows arbitrary: cs)
  case Nil
  then show ?case by (simp split: option.splits)
next
  case (Cons row rows)
  show ?case
    using Cons.IH[of "add_course strptime cs row"] add_course_lookup[OF assms, of strptime cs row]
    by (simp split: option.splits)
qed

lemma courses_fold_keys:
  "distinct (map fst cs) \<Longrightarrow> [] \<notin> fst ` set cs \<Longrightarrow>
     distinct (map fst (foldl (add_course strptime) cs rows))
     \<and> [] \<notin> fst ` set (foldl (add_course strptime) cs rows)"
proof (induction rows arbitrary: cs)
  case Nil
  then show ?case by simp
next
  case (Cons row rows)
  have "distinct (map fst (add_course strptime cs row))"
    using Cons.prems(1) by (auto simp add: add_course_def Let_def map_of_eq_None_iff)
  moreover have "[] \<notin> fst ` set (add_course strptime cs row)"
    using Cons.prems(2) by (auto simp add: add_course_def Let_def)
  ultimately show ?case using Cons.IH by simp
qed

lemma read_all_courses_lookup:
  "r \<noteq> [] \<Longrightarrow>
     map_of (read_all_courses strptime files) r = map_option (course_of_row strptime) (first_row files r)"
  by (simp add: read_all_courses_def first_row_def all_rows_def courses_fold_lookup)

lemma read_all_courses_keys:
  "distinct (map fst (read_all_courses strptime files))"
  "[] \<notin> fst ` set (read_all_courses strptime files)"
  using courses_fold_keys[of "[]"] by (simp_all add: read_all_courses_def)

lemma read_all_courses_entry:
  "(k, c) \<in> set (read_all_courses strptime files) \<longleftrightarrow>
     k \<noteq> [] \<and> (\<exists>row. first_row files k = Some row \<and> c = course_of_row strptime row)"
proof -
  have "(k, c) \<in> set (read_all_courses strptime files)
          \<longleftrightarrow> map_of (read_all_courses strptime files) k = Some c"
    using read_all_courses_keys(1) by simp
  moreover have "k \<noteq> []" if "(k, c) \<in> set (read_all_courses strptime files)"
    using that read_all_courses_keys(2)[of strptime files] by force
  ultimately show ?thesis
    using read_all_courses_lookup[of k strptime files]
    by (cases "first_row files k") auto
qed

lemma first_row_rcid: "first_row files r = Some row \<Longrightarrow> csv_get row ''rcid'' = r \<and> row \<in> set (all_rows files)"
  unfolding first_row_def by (auto simp add: find_Some_iff)

lemma course_of_row_fields:
  "c_rcid (course_of_row strptime row) = csv_get row ''rcid''"
  "c_segment (course_of_row strptime row) = heuristic strptime row"
  "c_slots (course_of_row strptime row) = []"
  by (simp_all add: course_of_row_def heuristic_def Let_def)

lemma merge_course_fields:
  "c_rcid (snd (merge_course maps (r, c))) = c_rcid c"
  "c_segment (snd (merge_course maps (r, c)))
     = (case map_of (snd maps) r of Some sg \<Rightarrow> sg | None \<Rightarrow> c_segment c)"
  "c_slots (snd (merge_course maps (r, c)))
     = (case map_of (fst maps) r of Some cd \<Rightarrow> cd | None \<Rightarrow> c_slots c)"
  by (simp_all add: merge_course_def Let_def split: option.splits)

lemma set_merged_records:
  "set (merged_records strptime files json csv)
     = (\<lambda>e. snd (merge_course (read_slots json csv) e)) ` set (read_all_courses strptime files)"
  by (simp add: merged_records_def sorted_courses_def merge_courses_def image_image)

lemma merged_record_exists:
  assumes "r \<noteq> []" "first_row files r = Some row"
  shows "snd (merge_course (read_slots json csv) (r, course_of_row strptime row))
           \<in> set (merged_records strptime files json csv)"
proof -
  have "(r, course_of_row strptime row) \<in> set (read_all_courses strptime files)"
    using assms by (simp add: read_all_courses_entry)
  then show ?thesis unfolding set_merged_records by (rule imageI)
qed

lemma merged_record_origin:
  assumes "m \<in> set (merged_records strptime files json csv)"
  shows "c_rcid m \<noteq> [] \<and> (\<exists>row. first_row files (c_rcid m) = Some row
           \<and> m = snd (merge_course (read_slots json csv) (c_rcid m, course_of_row strptime row)))"
proof -
  from assms obtain k c where kc: "(k, c) \<in> set (read_all_courses strptime files)"
    "m = snd (merge_course (read_slots json csv) (k, c))"
    unfolding set_merged_records by auto
  then obtain row where row: "k \<noteq> []" "first_row files k = Some row" "c = course_of_row strptime row"
    by (auto simp add: read_all_courses_entry)
  have "c_rcid m = k"
    using kc(2) row(2,3) first_row_rcid[of files k row]
    by (simp add: merge_course_fields course_of_row_fields)
  with kc row show ?thesis by auto
qed


lemma find_append_option:
  "find P (xs @ ys) = (case find P xs of Some x \<Rightarrow> Some x | None \<Rightarrow> find P ys)"
  by (induction xs) simp_all

lemma find_Some_set: "find P xs = Some x \<Longrightarrow> P x \<and> x \<in> set xs"
  by (induction xs) (auto split: if_splits)

lemma last_nonempty_Cons:
  "last_nonempty (x # xs) =
     (case last_nonempty xs of Some s \<Rightarrow> Some s | None \<Rightarrow> if x \<noteq> [] then Some x else None)"
  by (simp add: last_nonempty_def find_append_option split: option.splits)

lemma last_nonempty_append:
  "last_nonempty (xs @ ys) =
     (case last_nonempty ys of Some s \<Rightarrow> Some s | None \<Rightarrow> last_nonempty xs)"
  by (simp add: last_nonempty_def find_append_option split: option.splits)

lemma last_nonempty_Nil: "last_nonempty [] = None"
  by (simp add: last_nonempty_def)

lemma last_nonempty_Some: "last_nonempty xs = Some s \<Longrightarrow> s \<noteq> [] \<and> s \<in> set xs"
  unfolding last_nonempty_def by (drule find_Some_set) simp

lemma read_slot_lookup:
  "map_of (fst (read_slot r m slot)) q =
     (if q = r \<and> strip (courseSlotCd slot) \<noteq> [] then Some (strip (courseSlotCd slot))
      else map_of (fst m) q)"
  "map_of (snd (read_slot r m slot)) q =
     (if q = r \<and> strip (segName slot) \<noteq> [] then Some (strip (segName slot))
      else map_of (snd m) q)"
  by (simp_all add: read_slot_def Let_def update_conv')

lemma read_slot_fold:
  "map_of (fst (foldl (read_slot r) m slots)) q =
     (if q = r then
        (case last_nonempty (map (\<lambda>s. strip (courseSlotCd s)) slots) of
           Some s \<Rightarrow> Some s | None \<Rightarrow> map_of (fst m) q)
      else map_of (fst m) q)"
  "map_of (snd (foldl (read_slot r) m slots)) q =
     (if q = r then
        (case last_nonempty (map (\<lambda>s. strip (segName s)) slots) of
           Some s \<Rightarrow> Some s | None \<Rightarrow> map_of (snd m) q)
      else map_of (snd m) q)"
proof (induction slots arbitrary: m)
  case Nil
  {
    case 1
    show ?case by (simp add: last_nonempty_Nil)
  next
    case 2
    show ?case by (simp add: last_nonempty_Nil)
  }
next
  case (Cons slot slots)
  {
    case 1
    show ?case
      using Cons.IH(1)[of "read_slot r m slot"]
      by (simp add: last_nonempty_Cons read_slot_lookup split: option.splits)
  next
    case 2
    show ?case
      using Cons.IH(2)[of "read_slot r m slot"]
      by (simp add: last_nonempty_Cons read_slot_lookup split: option.splits)
  }
qed

lemma slots_of_Cons:
  "slots_of ((r, c) # data) q = (if r = q then j_slots c else []) @ slots_of data q"
  by (simp add: slots_of_def)

lemma read_slots_json_lookup:
  "map_of (fst (read_slots_json data m)) q =
     (case last_nonempty (map (\<lambda>s. strip (courseSlotCd s)) (slots_of data q)) of
        Some s \<Rightarrow> Some s | None \<Rightarrow> map_of (fst m) q)"
  "map_of (snd (read_slots_json data m)) q =
     (case last_nonempty (map (\<lambda>s. strip (segName s)) (slots_of data q)) of
        Some s \<Rightarrow> Some s | None \<Rightarrow> map_of (snd m) q)"
proof (induction data arbitrary: m)
  case Nil
  {
    case 1
    show ?case by (simp add: read_slots_json_def slots_of_def last_nonempty_Nil)
  next
    case 2
    show ?case by (simp add: read_slots_json_def slots_of_def last_nonempty_Nil)
  }
next
  case (Cons e data)
  obtain r c where e: "e = (r, c)" by (cases e)
  have step: "read_slots_json ((r, c) # data) m
                = read_slots_json data (foldl (read_slot r) m (j_slots c))" for m
    by (simp add: read_slots_json_def)
  {
    case 1
    show ?case
      unfolding e step slots_of_Cons
      using Cons.IH(1)[of "foldl (read_slot r) m (j_slots c)"]
      by (simp add: last_nonempty_append last_nonempty_Nil read_slot_fold split: option.splits)
  next
    case 2
    show ?case
      unfolding e step slots_of_Cons
      using Cons.IH(2)[of "foldl (read_slot r) m (j_slots c)"]
      by (simp add: last_nonempty_append last_nonempty_Nil read_slot_fold split: option.splits)
  }
qed


lemma last_nonempty_exists:
  assumes "x \<in> set xs" "x \<noteq> []"
  shows "last_nonempty xs \<noteq> None"
  using assms by (auto simp add: last_nonempty_def find_None_iff)

lemma json_has_slot_code:
  assumes "e \<in> set data" "sl \<in> set (j_slots (snd e))" "strip (courseSlotCd sl) \<noteq> []"
  shows "fst (read_slots_json data ([], [])) \<noteq> []"
proof -
  have "sl \<in> set (slots_of data (fst e))"
  proof -
    obtain k c where e: "e = (k, c)" by (cases e)
    with assms(1,2) have "(k, c) \<in> set data" "sl \<in> set (j_slots c)" by simp_all
    then show ?thesis unfolding slots_of_def e by (simp add: image_iff) blast
  qed
  then have "strip (courseSlotCd sl) \<in> set (map (\<lambda>s. strip (courseSlotCd s)) (slots_of data (fst e)))"
    by simp
  then have "last_nonempty (map (\<lambda>s. strip (courseSlotCd s)) (slots_of data (fst e))) \<noteq> None"
    using assms(3) by (rule last_nonempty_exists)
  then have "map_of (fst (read_slots_json data ([], []))) (fst e) \<noteq> None"
    by (simp add: read_slots_json_lookup(1) split: option.splits)
  then show ?thesis by auto
qed

lemma read_slots_json_path:
  assumes "csv = None \<or> (\<exists>e \<in> set data. \<exists>sl \<in> set (j_slots (snd e)). strip (courseSlotCd sl) \<noteq> [])"
  shows "read_slots (Some data) csv = read_slots_json data ([], [])"
  using assms json_has_slot_code[of _ data]
  by (auto simp add: read_slots_def Let_def split: option.splits)

lemma read_csv_row_values:
  assumes "\<forall>k s. map_of (snd m) k = Some s \<longrightarrow> s \<noteq> []"
  shows "\<forall>k s. map_of (snd (read_csv_row m row)) k = Some s \<longrightarrow> s \<noteq> []"
  using assms by (auto simp add: read_csv_row_def Let_def update_conv' split: if_splits)

lemma read_csv_rows_values:
  assumes "\<forall>k s. map_of (snd m) k = Some s \<longrightarrow> s \<noteq> []"
  shows "\<forall>k s. map_of (snd (foldl read_csv_row m rows)) k = Some s \<longrightarrow> s \<noteq> []"
  using assms
proof (induction rows arbitrary: m)
  case Nil
  then show ?case by simp
next
  case (Cons row rows)
  from read_csv_row_values[OF Cons.prems, of row] Cons.IH[of "read_csv_row m row"]
  show ?case by simp
qed

lemma read_slots_json_values:
  "\<forall>k s. map_of (snd (read_slots_json data ([], []))) k = Some s \<longrightarrow> s \<noteq> []"
  by (auto simp add: read_slots_json_lookup(2) split: option.splits dest: last_nonempty_Some)

lemma segment_map_values:
  "\<forall>k s. map_of (snd (read_slots json csv)) k = Some s \<longrightarrow> s \<noteq> []"
proof -
  define m where "m = (case json of None \<Rightarrow> ([], []) | Some data \<Rightarrow> read_slots_json data ([], []))"
  have m: "\<forall>k s. map_of (snd m) k = Some s \<longrightarrow> s \<noteq> []"
    using read_slots_json_values by (simp add: m_def split: option.splits)
  have "read_slots json csv = m \<or> (\<exists>rows. read_slots json csv = foldl read_csv_row m rows)"
    by (auto simp add: read_slots_def m_def Let_def split: option.splits)
  then show ?thesis using m read_csv_rows_values[OF m] by metis
qed

text \<open>
  C5. A course of the metadata is emitted once, and its segment is the authoritative
  segment name (the entry of \<open>segment_map\<close>, which is never empty) when there is one,
  else the heuristic segment of its first metadata row, which is empty when a date is
  missing or unparseable.
\<close>

theorem authoritative_over_heuristic:
  assumes "r \<noteq> []" and "first_row files r = Some row"
  shows "(\<exists>m \<in> set (merged_records strptime files json csv). c_rcid m = r)
     \<and> (\<forall>m \<in> set (merged_records strptime files json csv). c_rcid m = r \<longrightarrow>
          c_segment m =
            (case map_of (snd (read_slots json csv)) r of
               Some sg \<Rightarrow> sg | None \<Rightarrow> heuristic strptime row))
     \<and> (\<forall>sg. map_of (snd (read_slots json csv)) r = Some sg \<longrightarrow> sg \<noteq> [])
     \<and> (parse_date strptime (csv_get row ''strtdt'') = None
          \<or> parse_date strptime (csv_get row ''enddt'') = None \<longrightarrow> heuristic strptime row = [])"
proof (intro conjI)
  let ?m = "snd (merge_course (read_slots json csv) (r, course_of_row strptime row))"
  have "?m \<in> set (merged_records strptime files json csv)"
    using assms by (rule merged_record_exists)
  moreover have "c_rcid ?m = r"
    using first_row_rcid[OF assms(2)] by (simp add: merge_course_fields course_of_row_fields)
  ultimately show "\<exists>m \<in> set (merged_records strptime files json csv). c_rcid m = r"
    by blast
next
  show "\<forall>m \<in> set (merged_records strptime files json csv). c_rcid m = r \<longrightarrow>
          c_segment m =
            (case map_of (snd (read_slots json csv)) r of
               Some sg \<Rightarrow> sg | None \<Rightarrow> heuristic strptime row)"
  proof (intro ballI impI)
    fix m assume m: "m \<in> set (merged_records strptime files json csv)" "c_rcid m = r"
    from merged_record_origin[OF m(1)] m(2) assms(2)
    have "m = snd (merge_course (read_slots json csv) (r, course_of_row strptime row))"
      by auto
    then show "c_segment m =
            (case map_of (snd (read_slots json csv)) r of
               Some sg \<Rightarrow> sg | None \<Rightarrow> heuristic strptime row)"
      by (simp add: merge_course_fields course_of_row_fields split: option.splits)
  qed
next
  show "\<forall>sg. map_of (snd (read_slots json csv)) r = Some sg \<longrightarrow> sg \<noteq> []"
    using segment_map_values by blast
next
  show "parse_date strptime (csv_get row ''strtdt'') = None
          \<or> parse_date strptime (csv_get row ''enddt'') = None \<longrightarrow> heuristic strptime row = []"
    by (auto simp add: heuristic_def determine_segment_def split: option.splits)
qed

theorem authoritative_over_heuristic_witness:
  "''101'' \<noteq> []
   \<and> first_row demo_files ''101'' = Some demo_row
   \<and> heuristic demo_strptime demo_row = ''2-4''
   \<and> map_of (snd (read_slots (Some demo_json) None)) ''101'' = Some ''3''
   \<and> map c_rcid (merged_records demo_strptime demo_files (Some demo_json) None) = [''101'']
   \<and> map c_segment (merged_records demo_strptime demo_files (Some demo_json) None) = [''3'']"
proof -
  have r: "''101'' \<noteq> []" by simp
  have row: "first_row demo_files ''101'' = Some demo_row" by code_simp
  have h: "heuristic demo_strptime demo_row = ''2-4''" by code_simp
  have a: "map_of (snd (read_slots (Some demo_json) None)) ''101'' = Some ''3''" by code_simp
  have ids: "map c_rcid (merged_records demo_strptime demo_files (Some demo_json) None) = [''101'']"
    by code_simp
  then obtain m where m: "merged_records demo_strptime demo_files (Some demo_json) None = [m]"
    "c_rcid m = ''101''" by auto
  from authoritative_over_heuristic[OF r row, of demo_strptime "Some demo_json" None] m a
  have "c_segment m = ''3''" by simp
  with r row h a ids m show ?thesis by simp
qed

text \<open>
  Reading \<open>slots.json\<close>, the merger keeps for a course the last non-empty slot code
  and the last non-empty segment name of its stored slot list, in the order of the list:
  later slots overwrite earlier ones. The segment part holds when the \<open>slots.csv\<close>
  fallback does not run: no such file, or some slot code in \<open>slots.json\<close>.
\<close>

theorem merge_last_wins:
  assumes "r \<noteq> []" and "first_row files r = Some row"
  shows "(\<exists>m \<in> set (merged_records strptime files (Some data) csv). c_rcid m = r)
     \<and> (\<forall>m \<in> set (merged_records strptime files (Some data) csv). c_rcid m = r \<longrightarrow>
          (\<forall>cd. last_nonempty (map (\<lambda>s. strip (courseSlotCd s)) (slots_of data r)) = Some cd
                \<longrightarrow> c_slots m = cd)
          \<and> (\<forall>sg. last_nonempty (map (\<lambda>s. strip (segName s)) (slots_of data r)) = Some sg
                 \<and> (csv = None
                     \<or> (\<exists>e \<in> set data. \<exists>sl \<in> set (j_slots (snd e)). strip (courseSlotCd sl) \<noteq> []))
                \<longrightarrow> c_segment m = sg))"
proof (intro conjI ballI impI allI)
  let ?m = "snd (merge_course (read_slots (Some data) csv) (r, course_of_row strptime row))"
  have "?m \<in> set (merged_records strptime files (Some data) csv)"
    using assms by (rule merged_record_exists)
  moreover have "c_rcid ?m = r"
    using first_row_rcid[OF assms(2)] by (simp add: merge_course_fields course_of_row_fields)
  ultimately show "\<exists>m \<in> set (merged_records strptime files (Some data) csv). c_rcid m = r"
    by blast
next
  fix m cd
  assume m: "m \<in> set (merged_records strptime files (Some data) csv)" "c_rcid m = r"
    and cd: "last_nonempty (map (\<lambda>s. strip (courseSlotCd s)) (slots_of data r)) = Some cd"
  from merged_record_origin[OF m(1)] m(2) assms(2)
  have eq: "m = snd (merge_course (read_slots (Some data) csv) (r, course_of_row strptime row))"
    by auto
  have look: "map_of (fst (read_slots_json data ([], []))) r = Some cd"
    using cd by (simp add: read_slots_json_lookup(1))
  then have "fst (read_slots_json data ([], [])) \<noteq> []" by auto
  then have "read_slots (Some data) csv = read_slots_json data ([], [])"
    by (simp add: read_slots_def Let_def)
  with look eq show "c_slots m = cd"
    by (simp add: merge_course_fields)
next
  fix m sg
  assume m: "m \<in> set (merged_records strptime files (Some data) csv)" "c_rcid m = r"
    and sg: "last_nonempty (map (\<lambda>s. strip (segName s)) (slots_of data r)) = Some sg
       \<and> (csv = None
           \<or> (\<exists>e \<in> set data. \<exists>sl \<in> set (j_slots (snd e)). strip (courseSlotCd sl) \<noteq> []))"
  from merged_record_origin[OF m(1)] m(2) assms(2)
  have eq: "m = snd (merge_course (read_slots (Some data) csv) (r, course_of_row strptime row))"
    by auto
  have "read_slots (Some data) csv = read_slots_json data ([], [])"
    using sg by (intro read_slots_json_path) simp
  moreover have "map_of (snd (read_slots_json data ([], []))) r = Some sg"
    using sg by (simp add: read_slots_json_lookup(2))
  ultimately show "c_segment m = sg"
    using eq by (simp add: merge_course_fields)
qed


theorem merge_last_wins_example:
  "''101'' \<noteq> []
   \<and> first_row demo_files ''101'' = Some demo_row
   \<and> last_nonempty (map (\<lambda>s. strip (courseSlotCd s)) (slots_of demo_json_two ''101'')) = Some ''B''
   \<and> last_nonempty (map (\<lambda>s. strip (segName s)) (slots_of demo_json_two ''101'')) = Some ''3-4''
   \<and> map c_rcid (merged_records demo_strptime demo_files (Some demo_json_two) None) = [''101'']
   \<and> map c_slots (merged_records demo_strptime demo_files (Some demo_json_two) None) = [''B'']
   \<and> map c_segment (merged_records demo_strptime demo_files (Some demo_json_two) None) = [''3-4'']"
proof -
  have r: "''101'' \<noteq> []" by simp
  have row: "first_row demo_files ''101'' = Some demo_row" by code_simp
  have cd: "last_nonempty (map (\<lambda>s. strip (courseSlotCd s)) (slots_of demo_json_two ''101'')) = Some ''B''"
    by code_simp
  have sg: "last_nonempty (map (\<lambda>s. strip (segName s)) (slots_of demo_json_two ''101'')) = Some ''3-4''"
    by code_simp
  have ids: "map c_rcid (merged_records demo_strptime demo_files (Some demo_json_two) None) = [''101'']"
    by code_simp
  then obtain m where m: "merged_records demo_strptime demo_files (Some demo_json_two) None = [m]"
    "c_rcid m = ''101''" by auto
  from merge_last_wins[OF r row, of demo_strptime demo_json_two None] m cd sg
  have "c_slots m = ''B'' \<and> c_segment m = ''3-4''" by simp
  with r row cd sg ids m show ?thesis by simp
qed



text \<open>
  The fallback: when \<open>slots.json\<close> leaves \<open>slots_map\<close> empty, the rows of an existing
  \<open>slots.csv\<close> are read on top of what \<open>slots.json\<close> gave, and the last row of a course
  with a segment decides the course's segment.
\<close>

lemma fallback_runs:
  assumes "fst (read_slots_json data ([], [])) = []"
  shows "read_slots (Some data) (Some rows) = foldl read_csv_row (read_slots_json data ([], [])) rows"
  using assms by (simp add: read_slots_def Let_def)

lemma read_csv_row_segment:
  assumes "csv_get row (find_key (\<lambda>k. contains ''rcid'' (lower k)) row ''rcid'') = r"
    and "csv_get row (find_key (\<lambda>k. contains ''segName'' k) row ''segName'') = sg"
    and "r \<noteq> []" and "sg \<noteq> []"
  shows "map_of (snd (read_csv_row maps row)) r = Some sg"
  using assms by (simp add: read_csv_row_def Let_def update_conv')

lemma fallback_row_overrides:
  assumes "r \<noteq> []" and "first_row files r = Some mrow"
    and "fst (read_slots_json data ([], [])) = []"
    and "csv_get row (find_key (\<lambda>k. contains ''rcid'' (lower k)) row ''rcid'') = r"
    and "csv_get row (find_key (\<lambda>k. contains ''segName'' k) row ''segName'') = sg"
    and "sg \<noteq> []"
  shows "\<forall>m \<in> set (merged_records strptime files (Some data) (Some (rows @ [row]))).
           c_rcid m = r \<longrightarrow> c_segment m = sg"
proof (intro ballI impI)
  fix m
  assume m: "m \<in> set (merged_records strptime files (Some data) (Some (rows @ [row])))"
    "c_rcid m = r"
  from merged_record_origin[OF m(1)] m(2) assms(2)
  have eq: "m = snd (merge_course (read_slots (Some data) (Some (rows @ [row])))
                  (r, course_of_row strptime mrow))"
    by auto
  have "read_slots (Some data) (Some (rows @ [row]))
          = read_csv_row (foldl read_csv_row (read_slots_json data ([], [])) rows) row"
    using fallback_runs[OF assms(3), of "rows @ [row]"] by simp
  then have "map_of (snd (read_slots (Some data) (Some (rows @ [row])))) r = Some sg"
    using read_csv_row_segment[OF assms(4,5,1,6)] by simp
  with eq show "c_segment m = sg" by (simp add: merge_course_fields)
qed

text \<open>
  C10. The stored slot list of course 101 in \<open>slots.json\<close> is sorted by (slot id, slot
  code) and holds two slots with the segment names A and B and no slot code, so the
  last non-empty segment name in that order is B. With no \<open>slots.csv\<close>, or with one that
  holds only its header line, the merger emits B. With a \<open>slots.csv\<close> whose row for the
  course names the segment C, the merger emits C although \<open>slots.json\<close> exists: the guard
  of the fallback tests \<open>slots_map\<close>, not the existence of \<open>slots.json\<close> that the
  comment above it names.
\<close>

theorem fallback_overrides_slots_json:
  "map slot_order (slots_of demo_json_no_code ''101'') = [(''7'', []), (''8'', [])]
   \<and> map segName (slots_of demo_json_no_code ''101'') = [''A'', ''B'']
   \<and> last_nonempty (map (\<lambda>s. strip (segName s)) (slots_of demo_json_no_code ''101'')) = Some ''B''
   \<and> map c_rcid (merged_records demo_strptime demo_files (Some demo_json_no_code)
         (Some demo_slots_csv)) = [''101'']
   \<and> map c_segment (merged_records demo_strptime demo_files (Some demo_json_no_code)
         (Some demo_slots_csv)) = [''C'']
   \<and> map c_segment (merged_records demo_strptime demo_files (Some demo_json_no_code)
         (Some [])) = [''B'']
   \<and> map c_segment (merged_records demo_strptime demo_files (Some demo_json_no_code)
         None) = [''B'']"
  by code_simp


section \<open>Output for unknown course ids\<close>

lemma writerow_out:
  "writerow out_fieldnames (out_rowdict c)
     = Inr [c_ccode c, c_cname c, c_coordname c, c_ccrd c, c_segment c, c_slots c]"
  by (simp add: writerow_def out_fieldnames_def out_rowdict_def)

lemma writerows_out:
  "writerows out_fieldnames (map out_rowdict cs) written
     = (written @ map (\<lambda>c. [c_ccode c, c_cname c, c_coordname c, c_ccrd c, c_segment c, c_slots c]) cs,
        None)"
  by (induction cs arbitrary: written) (simp_all add: writerow_out)

lemma combine_never_raises:
  "snd (combine strptime files json csv) = None"
  "length (fst (combine strptime files json csv))
     = Suc (length (merged_records strptime files json csv))"
  by (simp_all add: combine_def writerows_out)

lemma json_step_lookup:
  "map_of (json_step courses seg_map out e) q =
     (if q = fst (fst e) then
        Some ((case map_of out q of
                 Some c \<Rightarrow> c
               | None \<Rightarrow> \<lparr>j_rcid = q, j_ccode = ccode (course_or_blank courses q),
                           j_cname = cname (course_or_blank courses q), j_slots = []\<rparr>)
              \<lparr>j_slots := j_slots (case map_of out q of
                 Some c \<Rightarrow> c
               | None \<Rightarrow> \<lparr>j_rcid = q, j_ccode = ccode (course_or_blank courses q),
                           j_cname = cname (course_or_blank courses q), j_slots = []\<rparr>)
                 @ [json_slot seg_map (fst e) (snd e)]\<rparr>)
      else map_of out q)"
  by (auto simp add: json_step_def Let_def map_of_map_entry map_add_def split: option.splits)

lemma json_fold_lookup:
  "map_of (foldl (json_step courses seg_map) out xs) q =
     (case map_of out q of
        Some c \<Rightarrow>
          Some (c\<lparr>j_slots := j_slots c
                   @ map (\<lambda>e. json_slot seg_map (fst e) (snd e)) (filter (\<lambda>e. fst (fst e) = q) xs)\<rparr>)
      | None \<Rightarrow>
          if filter (\<lambda>e. fst (fst e) = q) xs = [] then None
          else Some \<lparr>j_rcid = q, j_ccode = ccode (course_or_blank courses q),
                     j_cname = cname (course_or_blank courses q),
                     j_slots = map (\<lambda>e. json_slot seg_map (fst e) (snd e))
                                 (filter (\<lambda>e. fst (fst e) = q) xs)\<rparr>)"
proof (induction xs arbitrary: out)
  case Nil
  then show ?case by (simp split: option.splits)
next
  case (Cons e xs)
  show ?case
    using Cons.IH[of "json_step courses seg_map out e"]
    by (simp add: json_step_lookup split: option.splits)
qed

lemma build_json_lookup:
  "map_of (build_json courses sl_map seg_map) q =
     (if filter (\<lambda>e. fst (fst e) = q) sl_map = [] then None
      else Some \<lparr>j_rcid = q, j_ccode = ccode (course_or_blank courses q),
                 j_cname = cname (course_or_blank courses q),
                 j_slots = sort_key slot_order
                   (map (\<lambda>e. json_slot seg_map (fst e) (snd e))
                      (filter (\<lambda>e. fst (fst e) = q) sl_map))\<rparr>)"
  by (simp add: build_json_def map_of_map json_fold_lookup)

lemma build_json_sorted:
  assumes "map_of (build_json courses sl_map seg_map) q = Some c"
  shows "sorted (map slot_order (j_slots c))"
  using assms by (auto simp add: build_json_lookup split: if_splits)

lemma build_json_keeps_unknown:
  assumes "(key, days) \<in> set sl_map" and "map_of courses (fst key) = None"
  shows "\<exists>c. map_of (build_json courses sl_map seg_map) (fst key) = Some c
           \<and> j_rcid c = fst key \<and> j_ccode c = [] \<and> j_cname c = []
           \<and> json_slot seg_map key days \<in> set (j_slots c)"
proof -
  have in_filter: "(key, days) \<in> set (filter (\<lambda>e. fst (fst e) = fst key) sl_map)"
    using assms(1) by simp
  then have ne: "filter (\<lambda>e. fst (fst e) = fst key) sl_map \<noteq> []"
    by (metis empty_iff empty_set)
  have "json_slot seg_map key days
          \<in> (\<lambda>e. json_slot seg_map (fst e) (snd e)) ` set (filter (\<lambda>e. fst (fst e) = fst key) sl_map)"
    using in_filter by (rule rev_image_eqI) simp
  then show ?thesis
    using ne assms(2) by (simp add: build_json_lookup course_or_blank_def)
qed

text \<open>
  C9. Every record of the merged table has a non-empty course id that a row of the
  metadata files carries, and writing the table never raises. A slot aggregated for a
  course id that the metadata does not have is kept in \<open>slots.json\<close>, under that id,
  with empty code and name.
\<close>

theorem merged_ids_from_metadata:
  "(\<forall>m \<in> set (merged_records strptime files json csv).
       c_rcid m \<noteq> [] \<and> (\<exists>row \<in> set (all_rows files). csv_get row ''rcid'' = c_rcid m))
   \<and> snd (combine strptime files json csv) = None
   \<and> length (fst (combine strptime files json csv))
       = Suc (length (merged_records strptime files json csv))
   \<and> ((key, days) \<in> set (slot_map st) \<and> map_of courses (fst key) = None \<longrightarrow>
        (\<exists>out c. json_file (write_outputs courses st) = Some out
           \<and> map_of out (fst key) = Some c
           \<and> j_rcid c = fst key \<and> j_ccode c = [] \<and> j_cname c = []
           \<and> json_slot (segment_map st) key days \<in> set (j_slots c)))"
proof (intro conjI ballI impI)
  fix m assume m: "m \<in> set (merged_records strptime files json csv)"
  from merged_record_origin[OF m] show "c_rcid m \<noteq> []" by blast
  from merged_record_origin[OF m] first_row_rcid[of files "c_rcid m"]
  show "\<exists>row \<in> set (all_rows files). csv_get row ''rcid'' = c_rcid m" by blast
next
  show "snd (combine strptime files json csv) = None"
    by (rule combine_never_raises)
next
  show "length (fst (combine strptime files json csv))
       = Suc (length (merged_records strptime files json csv))"
    by (rule combine_never_raises)
next
  assume "(key, days) \<in> set (slot_map st) \<and> map_of courses (fst key) = None"
  then have "\<exists>c. map_of (build_json courses (slot_map st) (segment_map st)) (fst key) = Some c
           \<and> j_rcid c = fst key \<and> j_ccode c = [] \<and> j_cname c = []
           \<and> json_slot (segment_map st) key days \<in> set (j_slots c)"
    by (intro build_json_keeps_unknown) simp_all
  then show "\<exists>out c. json_file (write_outputs courses st) = Some out
           \<and> map_of out (fst key) = Some c
           \<and> j_rcid c = fst key \<and> j_ccode c = [] \<and> j_cname c = []
           \<and> json_slot (segment_map st) key days \<in> set (j_slots c)"
    by (simp add: write_outputs_def Let_def)
qed

theorem merged_ids_from_metadata_witness:
  "map c_rcid (merged_records demo_strptime demo_files
       (json_file (write_outputs demo_courses demo_state)) None) = [''101'']
   \<and> ((''999'', ''7'', ''S9''), {''Fri 9''}) \<in> set (slot_map demo_state)
   \<and> map_of demo_courses ''999'' = None
   \<and> json_file (write_outputs demo_courses demo_state)
       = Some [(''999'', \<lparr>j_rcid = ''999'', j_ccode = [], j_cname = [],
           j_slots = [\<lparr>courseSlotId = ''7'', courseSlotCd = ''S9'', segName = ''2'',
                       slotPeriodCdDays = [''Fri 9'']\<rparr>]\<rparr>)]
   \<and> combine demo_strptime demo_files (json_file (write_outputs demo_courses demo_state)) None
       = ([[''ccode'', ''cname'', ''coordname'', ''ccrd'', ''segment'', ''slots''],
           [''CS101'', ''Algebra'', ''Noether'', ''3'', ''2-4'', []]], None)"
proof -
  have a: "map c_rcid (merged_records demo_strptime demo_files
       (json_file (write_outputs demo_courses demo_state)) None) = [''101'']"
    by code_simp
  have b: "((''999'', ''7'', ''S9''), {''Fri 9''}) \<in> set (slot_map demo_state)"
    by code_simp
  have c: "map_of demo_courses ''999'' = None" by code_simp
  have d: "json_file (write_outputs demo_courses demo_state)
       = Some [(''999'', \<lparr>j_rcid = ''999'', j_ccode = [], j_cname = [],
           j_slots = [\<lparr>courseSlotId = ''7'', courseSlotCd = ''S9'', segName = ''2'',
                       slotPeriodCdDays = [''Fri 9'']\<rparr>]\<rparr>)]"
    by code_simp
  have e: "combine demo_strptime demo_files (json_file (write_outputs demo_courses demo_state)) None
       = ([[''ccode'', ''cname'', ''coordname'', ''ccrd'', ''segment'', ''slots''],
           [''CS101'', ''Algebra'', ''Noether'', ''3'', ''2-4'', []]], None)"
    by code_simp
  show ?thesis
    using a b c d e
      merged_ids_from_metadata[where strptime = demo_strptime and files = demo_files
        and json = "json_file (write_outputs demo_courses demo_state)" and csv = None
        and key = "(''999'', ''7'', ''S9'')" and days = "{''Fri 9''}" and st = demo_state
        and courses = demo_courses]
    by simp
qed


end
